theory Spec2Isabelle
  imports Complex_Main "HOL-Library.Word" "HOL-Library.Sublist" "HOL-Library.Log_Nat"
begin

section \<open>JavaScript numbers\<close>

text \<open>
  A JavaScript number is an IEEE 754 double.  Every finite double is a rational, so the
  finite numbers are modelled as \<^typ>\<open>rat\<close>, and each arithmetic operation of the source
  is the exact operation followed by \<open>fl\<close>, rounding to the nearest number with a 53-bit
  significand, ties to the even significand.  The exponent is left unbounded: the values
  of this program (byte counts, pixel counts, ratios of them) are far from the overflow
  and underflow thresholds of a double.
\<close>

type_synonym number = rat

definition round_half_even :: "rat \<Rightarrow> int" where
  "round_half_even y =
     (let f = \<lfloor>y\<rfloor>; d = y - of_int f
      in if d < 1 / 2 then f else if 1 / 2 < d then f + 1 else if even f then f else f + 1)"

text \<open>\<open>ilog2 x\<close> is the binary exponent of a positive \<open>x\<close>: \<open>2 powi ilog2 x \<le> x < 2 powi (ilog2 x + 1)\<close>.\<close>

definition ilog2 :: "rat \<Rightarrow> int" where
  "ilog2 x = (if 1 \<le> x then bitlen \<lfloor>x\<rfloor> - 1 else - bitlen (\<lceil>1 / x\<rceil> - 1))"

definition fl_pos :: "rat \<Rightarrow> rat" where
  "fl_pos x = (let e = ilog2 x - 52 in of_int (round_half_even (x / 2 powi e)) * 2 powi e)"

definition fl :: "rat \<Rightarrow> number" where
  "fl x = (if x = 0 then 0 else if 0 < x then fl_pos x else - fl_pos (- x))"

text \<open>
  Values read from a typed array may be \<open>undefined\<close> (an index past the end), and
  \<open>undefined\<close> in arithmetic is \<open>NaN\<close>: \<open>None\<close> stands for both.  A comparison with
  \<open>NaN\<close> is false and a product with \<open>NaN\<close> is \<open>NaN\<close>.
\<close>

fun lt_num :: "number option \<Rightarrow> number option \<Rightarrow> bool" where
  "lt_num (Some x) (Some y) = (x < y)"
| "lt_num _ _ = False"

fun times_num :: "number option \<Rightarrow> number option \<Rightarrow> number option" where
  "times_num (Some x) (Some y) = Some (fl (x * y))"
| "times_num _ _ = None"

subsection \<open>Numbers as strings\<close>

definition digit_char :: "nat \<Rightarrow> char" where
  "digit_char d = ''0123456789'' ! d"

text \<open>The string of a non-negative integer number, as a template literal renders it.\<close>

fun show_nat :: "nat \<Rightarrow> string" where
  "show_nat n = (if n < 10 then [digit_char n] else show_nat (n div 10) @ [digit_char (n mod 10)])"

declare show_nat.simps [simp del]

text \<open>
  \<open>x.toFixed(1)\<close> for \<open>x\<close> below \<open>10^21\<close>: the integer \<open>n\<close> for which \<open>n / 10 - x\<close> is
  closest to zero, the larger one of two, printed with one digit after the point.
\<close>

definition toFixed1 :: "number \<Rightarrow> string" where
  "toFixed1 x =
     (let s = (if x < 0 then ''-'' else '''');
          n = nat \<lfloor>\<bar>x\<bar> * 10 + 1 / 2\<rfloor>
      in s @ show_nat (n div 10) @ ''.'' @ [digit_char (n mod 10)])"

section \<open>The browser: files, images and the canvas\<close>

record File =
  fname :: string
  ftype :: string
  fsize :: nat

type_synonym rgba = "8 word \<times> 8 word \<times> 8 word \<times> 8 word"

text \<open>
  A loaded image element has its pixel dimensions; \<open>resample img w h p\<close> is the colour
  the browser gives pixel \<open>p\<close> (row-major) of a \<open>w\<close> by \<open>h\<close> canvas once the image is drawn
  on the whole of it.
\<close>

record html_image =
  width :: nat
  height :: nat
  resample :: "nat \<Rightarrow> nat \<Rightarrow> nat \<Rightarrow> rgba"

text \<open>
  What a browser call can raise: the error event that rejects the promise of an image
  load, and the exception of a canvas call (\<open>drawImage\<close>, \<open>getImageData\<close>), such as the
  \<open>SecurityError\<close> of a tainted canvas.
\<close>

datatype js_error = ErrorEvent string | DOMException string

text \<open>
  What the program gets from the browser in one run: the object URL made for a file,
  fresh in every run; the outcome of loading a URL into an image element (\<open>onload\<close> or
  \<open>onerror\<close>); whether a canvas hands out a 2d context; and the exception, if any, that
  drawing an image on a canvas of a given size and reading it back raises.
\<close>

record browser =
  createObjectURL :: "File \<Rightarrow> string"
  loadImage :: "string \<Rightarrow> js_error + html_image"
  context2d :: bool
  canvas_raises :: "html_image \<Rightarrow> nat \<Rightarrow> nat \<Rightarrow> js_error option"

text \<open>The bytes of the whole canvas, row-major RGBA, once the image is drawn on it.\<close>

definition image_data :: "html_image \<Rightarrow> nat \<Rightarrow> nat \<Rightarrow> 8 word list" where
  "image_data img w h =
     concat (map (\<lambda>p. case resample img w h p of (r, g, b, a) \<Rightarrow> [r, g, b, a]) [0..<w * h])"

text \<open>
  \<open>drawImage\<close> on the whole canvas followed by \<open>getImageData\<close> of the whole canvas: the
  exception of the run, or the bytes.
\<close>

definition getImageData :: "browser \<Rightarrow> html_image \<Rightarrow> nat \<Rightarrow> nat \<Rightarrow> js_error + 8 word list" where
  "getImageData env img w h =
     (case canvas_raises env img w h of Some e \<Rightarrow> Inl e | None \<Rightarrow> Inr (image_data img w h))"

text \<open>\<open>data[i]\<close> on a \<open>Uint8ClampedArray\<close>.\<close>

definition elem :: "8 word list \<Rightarrow> nat \<Rightarrow> number option" where
  "elem data i = (if i < length data then Some (of_nat (unat (data ! i))) else None)"

section \<open>Image validation helpers\<close>

record details =
  dwidth :: nat
  dheight :: nat
  sizeMB :: number
  dtype :: string
  vegetationScore :: "number option"

record ImageValidation =
  ok :: bool
  reason :: "string option"
  details :: "details option"

definition MAX_IMAGE_MB :: nat where
  "MAX_IMAGE_MB = 10"

definition MIN_DIM :: nat where
  "MIN_DIM = 256"

definition MIN_VEG_SCORE :: number where
  "MIN_VEG_SCORE = fl (8 / 100)"

text \<open>
  The promise of \<open>loadImageFromBlob\<close> resolves with the image (\<open>Inr\<close>) or rejects with the
  error event (\<open>Inl\<close>).
\<close>

definition loadImageFromBlob :: "browser \<Rightarrow> string \<Rightarrow> js_error + html_image" where
  "loadImageFromBlob env blobUrl = loadImage env blobUrl"

text \<open>
  The sampling loop of \<open>computeVegetationScore\<close>, from index \<open>i\<close> with the counters
  \<open>greenish\<close> and \<open>total\<close> (here \<open>total'\<close>).  The source's \<open>step\<close> is at least 1, so
  the test \<open>0 < step\<close> never fails there; it makes the recursion well-founded for every
  argument.
\<close>

function scan :: "8 word list \<Rightarrow> nat \<Rightarrow> nat \<Rightarrow> nat \<Rightarrow> nat \<Rightarrow> nat \<times> nat" where
  "scan data step i greenish total' =
     (if i < length data \<and> 0 < step then
        (let r = elem data i; g = elem data (i + 1); b = elem data (i + 2); a = elem data (i + 3)
         in if lt_num a (Some 50) then scan data step (i + 4 * step) greenish total'
            else
              (let isGreen = (lt_num (times_num r (Some (fl (11 / 10)))) g
                              \<and> lt_num (times_num b (Some (fl (11 / 10)))) g
                              \<and> lt_num (Some 60) g)
               in scan data step (i + 4 * step) (if isGreen then greenish + 1 else greenish) (total' + 1)))
      else (greenish, total'))"
  by pat_completeness auto
termination
  by (relation "measure (\<lambda>(data, step, i, greenish, total'). length data - i)") auto

declare scan.simps [simp del]

text \<open>\<open>Math.max(1, Math.floor(side * scale))\<close>, the width or the height of the canvas.\<close>

definition canvas_side :: "nat \<Rightarrow> number \<Rightarrow> nat" where
  "canvas_side side scale = max 1 (nat \<lfloor>fl (of_nat side * scale)\<rfloor>)"

text \<open>
  \<open>512 / 0\<close> is \<open>Infinity\<close> and \<open>Math.min(1, Infinity)\<close> is 1, hence the case of an
  image without pixels in \<open>scale\<close>.  A canvas that hands out no 2d context gives the
  score 0; an exception of the canvas calls leaves the function (\<open>Inl\<close>).
\<close>

definition computeVegetationScore :: "browser \<Rightarrow> html_image \<Rightarrow> js_error + number" where
  "computeVegetationScore env img =
     (let maxSide = 512;
          longer = max (width img) (height img);
          scale = (if longer = 0 then 1 else min 1 (fl (maxSide / of_nat longer)));
          cw = canvas_side (width img) scale;
          ch = canvas_side (height img) scale
      in if \<not> context2d env then Inr 0
         else
           (case getImageData env img cw ch of
              Inl e \<Rightarrow> Inl e
            | Inr data \<Rightarrow>
                (let step = max 1 (nat \<lfloor>fl (fl (of_nat (length data) / 4) / 10000)\<rfloor>);
                     (greenish, total') = scan data step 0 0 0
                 in Inr (if total' \<noteq> 0 then fl (of_nat greenish / of_nat total') else 0))))"

text \<open>
  A verdict is the object \<open>{ok, reason?, details?}\<close>.  \<open>validateImage_try\<close> is the block
  under \<open>try\<close>: the load, the dimension test and the vegetation score, each of which
  passes on the exception of a browser call.  \<open>validateImage\<close> returns the verdict of
  the promise (\<open>Inr\<close>) or the exception that leaves it (\<open>Inl\<close>); its \<open>catch\<close> turns every
  exception of the block into a verdict, and \<open>finally\<close> only releases the object URL.
\<close>

definition validateImage_try ::
    "browser \<Rightarrow> File \<Rightarrow> number \<Rightarrow> string \<Rightarrow> js_error + ImageValidation" where
  "validateImage_try env file sizeMB' blobUrl =
     (case loadImageFromBlob env blobUrl of
        Inl e \<Rightarrow> Inl e
      | Inr img \<Rightarrow>
          if width img < MIN_DIM \<or> height img < MIN_DIM
          then Inr \<lparr>ok = False,
                    reason = Some (''Image is too small ('' @ show_nat (width img) @ ''x''
                                   @ show_nat (height img) @ ''). Minimum ''
                                   @ show_nat MIN_DIM @ ''x'' @ show_nat MIN_DIM @ ''.''),
                    details = None\<rparr>
          else
            (case computeVegetationScore env img of
               Inl e \<Rightarrow> Inl e
             | Inr score \<Rightarrow>
                 if score < MIN_VEG_SCORE
                 then Inr \<lparr>ok = False,
                           reason = Some ''Wrong image: looks unlike a crop/leaf. Please upload a clear leaf/plant photo.'',
                           details = Some \<lparr>dwidth = width img, dheight = height img,
                                           sizeMB = sizeMB', dtype = ftype file,
                                           vegetationScore = Some score\<rparr>\<rparr>
                 else Inr \<lparr>ok = True, reason = None,
                           details = Some \<lparr>dwidth = width img, dheight = height img,
                                           sizeMB = sizeMB', dtype = ftype file,
                                           vegetationScore = Some score\<rparr>\<rparr>))"

definition validateImage :: "browser \<Rightarrow> File \<Rightarrow> js_error + ImageValidation" where
  "validateImage env file =
     (if \<not> prefix ''image/'' (ftype file)
      then Inr \<lparr>ok = False, reason = Some ''File is not an image.'', details = None\<rparr>
      else
        (let sizeMB = fl (fl (of_nat (fsize file)) / (1024 * 1024))
         in if of_nat MAX_IMAGE_MB < sizeMB
            then Inr \<lparr>ok = False,
                      reason = Some (''Image is too large ('' @ toFixed1 sizeMB @ '' MB). Max ''
                                     @ show_nat MAX_IMAGE_MB @ '' MB.''),
                      details = None\<rparr>
            else
              (let blobUrl = createObjectURL env file
               in case validateImage_try env file sizeMB blobUrl of
                    Inl e \<Rightarrow>
                      Inr \<lparr>ok = False,
                           reason = Some ''Could not read the image. Try another file.'',
                           details = None\<rparr>
                  | Inr verdict \<Rightarrow> Inr verdict)))"

section \<open>Notions used to state the properties\<close>

text \<open>The value of the local \<open>sizeMB\<close> of \<open>validateImage\<close>.\<close>

definition size_in_MB :: "File \<Rightarrow> number" where
  "size_in_MB file = fl (fl (of_nat (fsize file)) / (1024 * 1024))"

text \<open>What the load of the file's object URL gives in a run.\<close>

definition decoded :: "browser \<Rightarrow> File \<Rightarrow> js_error + html_image" where
  "decoded env file = loadImageFromBlob env (createObjectURL env file)"

text \<open>The width and height that \<open>computeVegetationScore\<close> gives its canvas.\<close>

definition canvas_size :: "html_image \<Rightarrow> nat \<times> nat" where
  "canvas_size img =
     (let longer = max (width img) (height img);
          scale = (if longer = 0 then 1 else min 1 (fl (512 / of_nat longer)))
      in (canvas_side (width img) scale, canvas_side (height img) scale))"

text \<open>The canvas is read: a 2d context is handed out and the canvas calls raise nothing.\<close>

definition canvas_read :: "browser \<Rightarrow> html_image \<Rightarrow> bool" where
  "canvas_read env img =
     (context2d env \<and> (case canvas_size img of (cw, ch) \<Rightarrow> canvas_raises env img cw ch = None))"

subsection \<open>The vegetation score in the words of the specification\<close>

text \<open>
  The scale factor is \<open>min(1, 512 / longer side)\<close>, in exact arithmetic.  A side of the
  canvas is the whole part of the image's side times the scale factor, at least 1; the
  product being computed in doubles, \<open>scaled_side x c\<close> lets the whole part be taken
  of a number within \<open>2^-42\<close> of the exact product \<open>x\<close>.
\<close>

definition spec_scale :: "html_image \<Rightarrow> rat" where
  "spec_scale img =
     (if max (width img) (height img) = 0 then 1
      else min 1 (512 / of_nat (max (width img) (height img))))"

definition scaled_side :: "rat \<Rightarrow> nat \<Rightarrow> bool" where
  "scaled_side x c =
     (max 1 (nat \<lfloor>x - 1 / 2 ^ 42\<rfloor>) \<le> c \<and> c \<le> max 1 (nat \<lfloor>x + 1 / 2 ^ 42\<rfloor>))"

text \<open>
  A sample is non-transparent when its alpha is not below 50, and green-dominant when
  its green channel exceeds red times 1.1 and blue times 1.1, in exact arithmetic, and
  exceeds 60.  The stride is the whole part of a ten-thousandth of the pixel count, at
  least 1; the samples are the pixels whose index is a multiple of the stride.
\<close>

definition nontransparent :: "rgba \<Rightarrow> bool" where
  "nontransparent px = (case px of (r, g, b, a) \<Rightarrow> \<not> unat a < 50)"

definition green_dominant :: "rgba \<Rightarrow> bool" where
  "green_dominant px =
     (case px of (r, g, b, a) \<Rightarrow>
        (of_nat (unat r) * (11 / 10) :: rat) < of_nat (unat g)
        \<and> (of_nat (unat b) * (11 / 10) :: rat) < of_nat (unat g)
        \<and> 60 < unat g)"

definition spec_stride :: "nat \<Rightarrow> nat" where
  "spec_stride totalPixels = max 1 (totalPixels div 10000)"

definition spec_samples :: "html_image \<Rightarrow> rgba list" where
  "spec_samples img =
     (case canvas_size img of (cw, ch) \<Rightarrow>
        map (resample img cw ch)
          (filter (\<lambda>p. p mod spec_stride (cw * ch) = 0) [0..<cw * ch]))"

definition spec_score :: "html_image \<Rightarrow> number" where
  "spec_score img =
     (let counted = filter nontransparent (spec_samples img);
          green = filter green_dominant counted
      in if counted = [] then 0 else fl (of_nat (length green) / of_nat (length counted)))"

subsection \<open>The checks in the words of the specification\<close>

text \<open>
  The five checks, each named by the rejection it produces, in the order of the
  specification: the media type starts with \<open>image/\<close>; the size in megabytes does not
  exceed the maximum; the content decodes; width and height are at least the minimum;
  the vegetation score is at least 0.08, the exact decimal.  \<open>first_failure\<close> is the
  first check of the list that does not pass, and \<open>spec_reason\<close> the reason string that
  goes with a rejection.
\<close>

datatype rejection = NotAnImage | TooLarge | DecodeFailed | TooSmall | LowVegetationScore

definition check_passes :: "browser \<Rightarrow> File \<Rightarrow> rejection \<Rightarrow> bool" where
  "check_passes env file c =
     (case c of
        NotAnImage \<Rightarrow> prefix ''image/'' (ftype file)
      | TooLarge \<Rightarrow> size_in_MB file \<le> of_nat MAX_IMAGE_MB
      | DecodeFailed \<Rightarrow> (case decoded env file of Inl e \<Rightarrow> False | Inr img \<Rightarrow> True)
      | TooSmall \<Rightarrow>
          (case decoded env file of
             Inl e \<Rightarrow> False
           | Inr img \<Rightarrow> MIN_DIM \<le> width img \<and> MIN_DIM \<le> height img)
      | LowVegetationScore \<Rightarrow>
          (case decoded env file of
             Inl e \<Rightarrow> False
           | Inr img \<Rightarrow>
               (case computeVegetationScore env img of
                  Inl e \<Rightarrow> False
                | Inr score \<Rightarrow> 8 / 100 \<le> score)))"

definition first_failure :: "browser \<Rightarrow> File \<Rightarrow> rejection option" where
  "first_failure env file =
     find (\<lambda>c. \<not> check_passes env file c)
       [NotAnImage, TooLarge, DecodeFailed, TooSmall, LowVegetationScore]"

definition spec_reason :: "browser \<Rightarrow> File \<Rightarrow> rejection \<Rightarrow> string" where
  "spec_reason env file c =
     (case c of
        NotAnImage \<Rightarrow> ''File is not an image.''
      | TooLarge \<Rightarrow> ''Image is too large ('' @ toFixed1 (size_in_MB file) @ '' MB). Max 10 MB.''
      | DecodeFailed \<Rightarrow> ''Could not read the image. Try another file.''
      | TooSmall \<Rightarrow>
          (case decoded env file of
             Inl e \<Rightarrow> ''''
           | Inr img \<Rightarrow> ''Image is too small ('' @ show_nat (width img) @ ''x''
                        @ show_nat (height img) @ ''). Minimum 256x256.'')
      | LowVegetationScore \<Rightarrow>
          ''Wrong image: looks unlike a crop/leaf. Please upload a clear leaf/plant photo.'')"

text \<open>
  The score could not be computed: the image decoded, but the canvas calls raised.
\<close>

definition score_raised :: "browser \<Rightarrow> File \<Rightarrow> bool" where
  "score_raised env file =
     (case decoded env file of
        Inl e \<Rightarrow> False
      | Inr img \<Rightarrow> (case computeVegetationScore env img of Inl e \<Rightarrow> True | Inr score \<Rightarrow> False))"

text \<open>
  The verdict of a file that passes the size check: the block under \<open>try\<close> with its
  \<open>catch\<close>.  The verdict of an image that passes the dimension check: the one of its
  vegetation score.
\<close>

definition after_size_check :: "browser \<Rightarrow> File \<Rightarrow> ImageValidation" where
  "after_size_check env file =
     (case validateImage_try env file (size_in_MB file) (createObjectURL env file) of
        Inl e \<Rightarrow> \<lparr>ok = False, reason = Some ''Could not read the image. Try another file.'',
                  details = None\<rparr>
      | Inr verdict \<Rightarrow> verdict)"

definition after_dimension_check :: "browser \<Rightarrow> File \<Rightarrow> html_image \<Rightarrow> ImageValidation" where
  "after_dimension_check env file img =
     (case computeVegetationScore env img of
        Inl e \<Rightarrow> \<lparr>ok = False, reason = Some ''Could not read the image. Try another file.'',
                  details = None\<rparr>
      | Inr score \<Rightarrow>
          if score < MIN_VEG_SCORE
          then \<lparr>ok = False,
                reason = Some ''Wrong image: looks unlike a crop/leaf. Please upload a clear leaf/plant photo.'',
                details = Some \<lparr>dwidth = width img, dheight = height img,
                                sizeMB = size_in_MB file, dtype = ftype file,
                                vegetationScore = Some score\<rparr>\<rparr>
          else \<lparr>ok = True, reason = None,
                details = Some \<lparr>dwidth = width img, dheight = height img,
                                sizeMB = size_in_MB file, dtype = ftype file,
                                vegetationScore = Some score\<rparr>\<rparr>)"

subsection \<open>Example inputs\<close>

definition green_image :: html_image where
  "green_image = \<lparr>width = 5000, height = 5000, resample = (\<lambda>w h p. (0, 200, 0, 255))\<rparr>"

definition clear_image :: html_image where
  "clear_image = \<lparr>width = 256, height = 256, resample = (\<lambda>w h p. (0, 200, 0, 0))\<rparr>"

definition tiny_image :: html_image where
  "tiny_image = \<lparr>width = 120, height = 80, resample = (\<lambda>w h p. (0, 200, 0, 255))\<rparr>"

definition two_pixels :: html_image where
  "two_pixels = \<lparr>width = 2, height = 1,
     resample = (\<lambda>w h p. if p = 0 then (0, 200, 0, 255) else (200, 50, 50, 255))\<rparr>"

text \<open>
  An image of 1024 by 80 pixels whose canvas pixels are green and red in turn, and a
  square of 561 pixels.
\<close>

definition striped_image :: html_image where
  "striped_image = \<lparr>width = 1024, height = 80,
     resample = (\<lambda>w h p. if p mod 2 = 0 then (0, 200, 0, 255) else (200, 50, 50, 255))\<rparr>"

definition square_561 :: html_image where
  "square_561 = \<lparr>width = 561, height = 561, resample = (\<lambda>w h p. (0, 200, 0, 255))\<rparr>"

definition leaf_png :: File where
  "leaf_png = \<lparr>fname = ''leaf.png'', ftype = ''image/png'', fsize = 3145728\<rparr>"

definition notes_txt :: File where
  "notes_txt = \<lparr>fname = ''notes.txt'', ftype = ''text/plain'', fsize = 3145728\<rparr>"

definition huge_png :: File where
  "huge_png = \<lparr>fname = ''huge.png'', ftype = ''image/png'', fsize = 12897485\<rparr>"

definition limit_png :: File where
  "limit_png = \<lparr>fname = ''limit.png'', ftype = ''image/png'', fsize = 10485760\<rparr>"

definition over_limit_png :: File where
  "over_limit_png = \<lparr>fname = ''over.png'', ftype = ''image/png'', fsize = 10485761\<rparr>"

text \<open>
  Runs: one in which every URL loads as the given image; a second one of the same
  browser, with other object URLs; one without a 2d context; one whose canvas calls
  raise; one in which no URL loads.
\<close>

definition browser_showing :: "html_image \<Rightarrow> browser" where
  "browser_showing img =
     \<lparr>createObjectURL = (\<lambda>f. ''blob:1/'' @ fname f), loadImage = (\<lambda>u. Inr img),
      context2d = True, canvas_raises = (\<lambda>i w h. None)\<rparr>"

definition browser_showing_again :: "html_image \<Rightarrow> browser" where
  "browser_showing_again img =
     \<lparr>createObjectURL = (\<lambda>f. ''blob:2/'' @ fname f),
      loadImage = (\<lambda>u. if take 7 u = ''blob:2/'' then Inr img else Inl (ErrorEvent ''error'')),
      context2d = True, canvas_raises = (\<lambda>i w h. None)\<rparr>"

definition browser_without_context :: "html_image \<Rightarrow> browser" where
  "browser_without_context img =
     \<lparr>createObjectURL = (\<lambda>f. ''blob:1/'' @ fname f), loadImage = (\<lambda>u. Inr img),
      context2d = False, canvas_raises = (\<lambda>i w h. None)\<rparr>"

definition browser_tainting :: "html_image \<Rightarrow> browser" where
  "browser_tainting img =
     \<lparr>createObjectURL = (\<lambda>f. ''blob:1/'' @ fname f), loadImage = (\<lambda>u. Inr img),
      context2d = True, canvas_raises = (\<lambda>i w h. Some (DOMException ''SecurityError''))\<rparr>"

definition decodes_nothing :: browser where
  "decodes_nothing =
     \<lparr>createObjectURL = (\<lambda>f. ''blob:1/'' @ fname f),
      loadImage = (\<lambda>u. Inl (ErrorEvent ''error'')),
      context2d = True, canvas_raises = (\<lambda>i w h. None)\<rparr>"

section \<open>Properties of rounding\<close>

lemma rhe_of_int: "round_half_even (of_int k) = k"
  by (simp add: round_half_even_def)

lemma rhe_upper: "of_int (round_half_even y) \<le> y + 1 / 2"
  unfolding round_half_even_def Let_def
  by (auto simp: not_less) linarith+

lemma rhe_lower: "y - 1 / 2 \<le> of_int (round_half_even y)"
  unfolding round_half_even_def Let_def
  by (auto simp: not_less) linarith+

lemma rhe_floor: "\<lfloor>y\<rfloor> \<le> round_half_even y" "round_half_even y \<le> \<lfloor>y\<rfloor> + 1"
  by (auto simp: round_half_even_def Let_def)

lemma rhe_mono:
  assumes "x \<le> y"
  shows "round_half_even x \<le> round_half_even y"
proof (cases "\<lfloor>x\<rfloor> = \<lfloor>y\<rfloor>")
  case True
  then show ?thesis
    using assms unfolding round_half_even_def Let_def by auto
next
  case False
  then have "\<lfloor>x\<rfloor> + 1 \<le> \<lfloor>y\<rfloor>"
    using floor_mono [OF assms] by linarith
  then show ?thesis
    using rhe_floor(2) [of x] rhe_floor(1) [of y] by linarith
qed

lemma ilog2_bounds_ge1:
  assumes "1 \<le> x"
  shows "2 powi ilog2 x \<le> x" "x < 2 powi (ilog2 x + 1)"
proof -
  define n where "n = \<lfloor>x\<rfloor>"
  have n: "0 < n" using assms by (simp add: n_def)
  define b where "b = bitlen n"
  have b1: "1 \<le> b" using n by (auto simp: b_def bitlen_alt_def)
  have bb: "2 ^ nat (b - 1) \<le> n" "n < 2 ^ nat b"
    using bitlen_bounds [OF n] by (simp_all add: b_def)
  have il: "ilog2 x = b - 1" using assms by (simp add: ilog2_def b_def n_def)
  have "(2::rat) powi (b - 1) = 2 ^ nat (b - 1)" using b1 by (simp add: power_int_def)
  also have "\<dots> = of_int (2 ^ nat (b - 1))" by simp
  also have "\<dots> \<le> of_int n" using bb(1) by (simp only: of_int_le_iff)
  also have "\<dots> \<le> x" by (simp add: n_def)
  finally show "2 powi ilog2 x \<le> x" by (simp add: il)
  have "n + 1 \<le> 2 ^ nat b" using bb(2) by simp
  then have "(of_int (n + 1) :: rat) \<le> of_int (2 ^ nat b)" by (simp only: of_int_le_iff)
  moreover have "x < of_int (n + 1)" unfolding n_def by linarith
  ultimately have "x < 2 ^ nat b" by simp
  also have "\<dots> = 2 powi b" using b1 by (simp add: power_int_def)
  finally show "x < 2 powi (ilog2 x + 1)" by (simp add: il)
qed

lemma ilog2_bounds_lt1:
  assumes "0 < x" "x < 1"
  shows "2 powi ilog2 x \<le> x" "x < 2 powi (ilog2 x + 1)"
proof -
  define y where "y = 1 / x"
  have y1: "1 < y" using assms by (simp add: y_def)
  define n where "n = \<lceil>y\<rceil> - 1"
  have n: "0 < n" using y1 unfolding n_def by linarith
  have ny: "of_int n < y" "y \<le> of_int n + 1" unfolding n_def by linarith+
  define b where "b = bitlen n"
  have b1: "1 \<le> b" using n by (auto simp: b_def bitlen_alt_def)
  have bb: "2 ^ nat (b - 1) \<le> n" "n < 2 ^ nat b"
    using bitlen_bounds [OF n] by (simp_all add: b_def)
  have il: "ilog2 x = - b" using assms by (simp add: ilog2_def b_def n_def y_def)
  have "n + 1 \<le> 2 ^ nat b" using bb(2) by simp
  then have "(of_int (n + 1) :: rat) \<le> of_int (2 ^ nat b)" by (simp only: of_int_le_iff)
  then have "y \<le> 2 ^ nat b" using ny(2) by simp
  then have "1 / 2 ^ nat b \<le> x"
    using assms(1) by (simp add: y_def field_simps)
  moreover have "(2::rat) powi (- b) = 1 / 2 ^ nat b"
    using b1 by (simp add: power_int_def field_simps)
  ultimately show "2 powi ilog2 x \<le> x" by (simp add: il)
  have "(2::rat) ^ nat (b - 1) \<le> of_int n"
    using bb(1) of_int_le_iff [of "2 ^ nat (b - 1)" n, where ?'a = rat] by simp
  then have "2 ^ nat (b - 1) < y" using ny(1) by linarith
  then have "x < 1 / 2 ^ nat (b - 1)"
    using assms(1) by (simp add: y_def field_simps)
  moreover have "(2::rat) powi (- b + 1) = 1 / 2 ^ nat (b - 1)"
    using b1 by (simp add: power_int_def field_simps)
  ultimately show "x < 2 powi (ilog2 x + 1)" by (simp add: il)
qed

lemma ilog2_bounds:
  assumes "0 < x"
  shows "2 powi ilog2 x \<le> x" "x < 2 powi (ilog2 x + 1)"
  using assms ilog2_bounds_ge1 [of x] ilog2_bounds_lt1 [of x] by (cases "1 \<le> x"; simp)+


lemma ilog2_unique:
  assumes "0 < x" "2 powi k \<le> x" "x < 2 powi (k + 1)"
  shows "ilog2 x = k"
proof (rule ccontr)
  assume ne: "ilog2 x \<noteq> k"
  show False
  proof (cases "ilog2 x < k")
    case True
    then have "(2::rat) powi (ilog2 x + 1) \<le> 2 powi k"
      by (intro power_int_increasing) simp_all
    then show False using ilog2_bounds(2) [OF assms(1)] assms(2) by linarith
  next
    case False
    with ne have "(2::rat) powi (k + 1) \<le> 2 powi ilog2 x"
      by (intro power_int_increasing) simp_all
    then show False using ilog2_bounds(1) [OF assms(1)] assms(3) by linarith
  qed
qed

lemma ilog2_mono:
  assumes "0 < x" "x \<le> y"
  shows "ilog2 x \<le> ilog2 y"
proof (rule ccontr)
  assume "\<not> ilog2 x \<le> ilog2 y"
  then have "(2::rat) powi (ilog2 y + 1) \<le> 2 powi ilog2 x"
    by (intro power_int_increasing) simp_all
  moreover have "0 < y" using assms by simp
  ultimately show False
    using ilog2_bounds(1) [OF assms(1)] ilog2_bounds(2) [of y] assms(2) by linarith
qed

lemma pow2_pos: "0 < (2::rat) powi e"
  by (simp add: power_int_def)

lemma pow2_add: "(2::rat) powi (a + b) = 2 powi a * 2 powi b"
  by (simp add: power_int_add)

lemma pow2_shift52: "(2::rat) powi L = 2 powi (L - 52) * 2 ^ 52"
  using pow2_add [of "L - 52" 52] by simp

lemma pow2_shift53: "(2::rat) powi (L + 1) = 2 powi (L - 52) * 2 ^ 53"
proof -
  have "(2::rat) powi (L + 1) = 2 powi ((L - 52) + 53)"
    by (rule arg_cong [where f = "power_int 2"]) simp
  also have "\<dots> = 2 powi (L - 52) * 2 powi 53" by (rule pow2_add)
  finally show ?thesis by simp
qed

lemma scaled_bounds:
  assumes "0 < x"
  shows "2 ^ 52 \<le> x / 2 powi (ilog2 x - 52)" "x / 2 powi (ilog2 x - 52) < 2 ^ 53"
proof -
  show "2 ^ 52 \<le> x / 2 powi (ilog2 x - 52)"
    using ilog2_bounds(1) [OF assms] pow2_pos [of "ilog2 x - 52"]
    by (simp add: pow2_shift52 [of "ilog2 x"] le_divide_eq mult.commute)
  show "x / 2 powi (ilog2 x - 52) < 2 ^ 53"
    using ilog2_bounds(2) [OF assms] pow2_pos [of "ilog2 x - 52"]
    by (simp add: pow2_shift53 [of "ilog2 x"] divide_less_eq mult.commute)
qed

lemma significand_bounds:
  assumes "0 < x"
  shows "2 ^ 52 \<le> round_half_even (x / 2 powi (ilog2 x - 52))"
    "round_half_even (x / 2 powi (ilog2 x - 52)) \<le> 2 ^ 53"
proof -
  have "round_half_even (of_int (2 ^ 52)) \<le> round_half_even (x / 2 powi (ilog2 x - 52))"
    using scaled_bounds(1) [OF assms] by (intro rhe_mono) simp
  then show "2 ^ 52 \<le> round_half_even (x / 2 powi (ilog2 x - 52))"
    by (simp only: rhe_of_int)
  have "round_half_even (x / 2 powi (ilog2 x - 52)) \<le> round_half_even (of_int (2 ^ 53))"
    using scaled_bounds(2) [OF assms] by (intro rhe_mono) simp
  then show "round_half_even (x / 2 powi (ilog2 x - 52)) \<le> 2 ^ 53"
    by (simp only: rhe_of_int)
qed

lemma fl_pos_range:
  assumes "0 < x"
  shows "2 powi ilog2 x \<le> fl_pos x" "fl_pos x \<le> 2 powi (ilog2 x + 1)"
proof -
  have split: "(2::rat) powi ilog2 x = 2 ^ 52 * 2 powi (ilog2 x - 52)"
    "(2::rat) powi (ilog2 x + 1) = 2 ^ 53 * 2 powi (ilog2 x - 52)"
    using pow2_shift52 [of "ilog2 x"] pow2_shift53 [of "ilog2 x"] by (simp_all only: mult.commute)
  let ?m = "round_half_even (x / 2 powi (ilog2 x - 52))"
  have "(of_int (2 ^ 52) :: rat) \<le> of_int ?m" "(of_int ?m :: rat) \<le> of_int (2 ^ 53)"
    using significand_bounds [OF assms] by (simp_all only: of_int_le_iff)
  then have m: "(2 ^ 52 :: rat) \<le> of_int ?m" "(of_int ?m :: rat) \<le> 2 ^ 53"
    by simp_all
  show "2 powi ilog2 x \<le> fl_pos x"
    unfolding fl_pos_def Let_def split
    using m(1) pow2_pos [of "ilog2 x - 52"] by (intro mult_right_mono) simp_all
  show "fl_pos x \<le> 2 powi (ilog2 x + 1)"
    unfolding fl_pos_def Let_def split
    using m(2) pow2_pos [of "ilog2 x - 52"] by (intro mult_right_mono) simp_all
qed

lemma fl_pos_pos: "0 < x \<Longrightarrow> 0 < fl_pos x"
  using fl_pos_range(1) [of x] pow2_pos [of "ilog2 x"] by linarith

lemma fl_pos_mono:
  assumes "0 < x" "x \<le> y"
  shows "fl_pos x \<le> fl_pos y"
proof (cases "ilog2 x = ilog2 y")
  case True
  have "x / 2 powi (ilog2 y - 52) \<le> y / 2 powi (ilog2 y - 52)"
    using assms(2) pow2_pos [of "ilog2 y - 52"] by (simp add: divide_right_mono)
  then have "round_half_even (x / 2 powi (ilog2 y - 52)) \<le> round_half_even (y / 2 powi (ilog2 y - 52))"
    by (rule rhe_mono)
  then have "(of_int (round_half_even (x / 2 powi (ilog2 y - 52))) :: rat)
      \<le> of_int (round_half_even (y / 2 powi (ilog2 y - 52)))"
    by (simp only: of_int_le_iff)
  then show ?thesis
    unfolding fl_pos_def Let_def True
    using pow2_pos [of "ilog2 y - 52"] by (intro mult_right_mono) simp_all
next
  case False
  have y: "0 < y" using assms by simp
  from False ilog2_mono [OF assms] have "ilog2 x + 1 \<le> ilog2 y" by simp
  then have "(2::rat) powi (ilog2 x + 1) \<le> 2 powi ilog2 y"
    by (intro power_int_increasing) simp_all
  then show ?thesis
    using fl_pos_range(2) [OF assms(1)] fl_pos_range(1) [OF y] by linarith
qed

lemma fl_pos_err:
  assumes "0 < x"
  shows "\<bar>fl_pos x - x\<bar> \<le> x / 2 ^ 53"
proof -
  define p where "p = (2::rat) powi (ilog2 x - 52)"
  have p: "0 < p" by (simp add: p_def pow2_pos)
  define y where "y = x / p"
  have x: "x = y * p" using p by (simp add: y_def)
  have y52: "2 ^ 52 \<le> y" using scaled_bounds(1) [OF assms] by (simp add: y_def p_def)
  have flx: "fl_pos x = of_int (round_half_even y) * p"
    by (simp add: fl_pos_def Let_def y_def p_def)
  have "\<bar>of_int (round_half_even y) - y\<bar> \<le> 1 / 2"
    using rhe_upper [of y] rhe_lower [of y] by linarith
  then have "\<bar>of_int (round_half_even y) - y\<bar> * p \<le> 1 / 2 * p"
    using p by (intro mult_right_mono) simp_all
  moreover have "fl_pos x - x = (of_int (round_half_even y) - y) * p"
    unfolding flx by (subst x) (simp add: algebra_simps)
  ultimately have "\<bar>fl_pos x - x\<bar> \<le> p / 2"
    using p by (simp add: abs_mult)
  also have "p / 2 \<le> y * p / 2 ^ 53"
  proof -
    have "2 ^ 52 * p \<le> y * p" using y52 p by (intro mult_right_mono) simp_all
    then show ?thesis by simp
  qed
  finally show ?thesis unfolding x [symmetric] .
qed

lemma fl_pos_repr:
  assumes "0 < k" "k < 2 ^ 53"
  shows "fl_pos (of_int k * 2 powi j) = of_int k * 2 powi j"
proof -
  define x where "x = (of_int k :: rat) * 2 powi j"
  have x: "0 < x" using assms(1) by (simp add: x_def pow2_pos)
  have "(of_int k :: rat) < of_int (2 ^ 53)" using assms(2) by (simp only: of_int_less_iff)
  then have "x < 2 ^ 53 * 2 powi j"
    unfolding x_def using pow2_pos [of j] by (intro mult_strict_right_mono) simp_all
  also have "\<dots> = 2 powi (j + 53)"
    using pow2_add [of j 53] by simp
  finally have lt: "x < 2 powi (j + 53)" .
  have "ilog2 x < j + 53"
  proof (rule ccontr)
    assume "\<not> ilog2 x < j + 53"
    then have "(2::rat) powi (j + 53) \<le> 2 powi ilog2 x"
      by (intro power_int_increasing) simp_all
    then show False using ilog2_bounds(1) [OF x] lt by linarith
  qed
  define e where "e = ilog2 x - 52"
  define d where "d = nat (j - e)"
  have j: "j = e + int d" using \<open>ilog2 x < j + 53\<close> by (simp add: d_def e_def)
  have pj: "(2::rat) powi j = 2 powi e * 2 ^ d"
    unfolding j by (simp add: pow2_add)
  have "x / 2 powi e = of_int (k * 2 ^ d)"
    using pow2_pos [of e] by (simp add: x_def pj)
  then have "round_half_even (x / 2 powi e) = k * 2 ^ d"
    by (simp only: rhe_of_int)
  then have "fl_pos x = of_int (k * 2 ^ d) * 2 powi e"
    by (simp add: fl_pos_def Let_def e_def)
  also have "\<dots> = x" by (simp add: x_def pj)
  finally show ?thesis by (simp add: x_def)
qed

subsection \<open>Rounding to a double\<close>

lemma fl_0: "fl 0 = 0"
  by (simp add: fl_def)

lemma fl_nonneg: "0 \<le> x \<Longrightarrow> 0 \<le> fl x"
  using fl_pos_pos [of x] by (auto simp: fl_def less_le)

lemma fl_pos_iff: "0 < x \<Longrightarrow> 0 < fl x"
  using fl_pos_pos [of x] by (simp add: fl_def)

lemma fl_minus: "fl (- x) = - fl x"
  by (simp add: fl_def)

lemma fl_mono_nonneg:
  assumes "0 \<le> x" "x \<le> y"
  shows "fl x \<le> fl y"
proof (cases "x = 0")
  case True
  then show ?thesis using fl_nonneg [of y] assms by (simp add: fl_0)
next
  case False
  then have "0 < x" "0 < y" using assms by simp_all
  then show ?thesis using fl_pos_mono [of x y] assms(2) by (simp add: fl_def)
qed

lemma fl_mono:
  assumes "x \<le> y"
  shows "fl x \<le> fl y"
proof (cases "0 \<le> x")
  case True
  then show ?thesis using assms by (rule fl_mono_nonneg)
next
  case False
  show ?thesis
  proof (cases "0 \<le> y")
    case True
    have "fl x \<le> 0" using fl_nonneg [of "- x"] False by (simp add: fl_minus)
    then show ?thesis using fl_nonneg [OF True] by linarith
  next
    case y: False
    have "fl (- y) \<le> fl (- x)" using y assms by (intro fl_mono_nonneg) simp_all
    then show ?thesis by (simp add: fl_minus)
  qed
qed

lemma fl_repr:
  assumes "\<bar>k\<bar> < 2 ^ 53"
  shows "fl (of_int k * 2 powi j) = of_int k * 2 powi j"
proof -
  consider "k = 0" | "0 < k" | "k < 0" by linarith
  then show ?thesis
  proof cases
    case 1
    then show ?thesis by (simp add: fl_0)
  next
    case 2
    then have "0 < (of_int k :: rat) * 2 powi j" by (simp add: pow2_pos)
    then show ?thesis using fl_pos_repr [of k j] 2 assms by (simp add: fl_def)
  next
    case 3
    define x where "x = (of_int (- k) :: rat) * 2 powi j"
    have "0 < (of_int (- k) :: rat)" using 3 by simp
    then have "0 < x" unfolding x_def using pow2_pos [of j] by (rule mult_pos_pos)
    moreover have "fl_pos x = x"
      unfolding x_def using 3 assms by (intro fl_pos_repr) simp_all
    ultimately have "fl x = x" by (simp add: fl_def)
    moreover have "of_int k * 2 powi j = - x" by (simp add: x_def)
    ultimately show ?thesis by (simp only: fl_minus)
  qed
qed

lemma fl_of_nat: "n < 2 ^ 53 \<Longrightarrow> fl (of_nat n) = of_nat n"
  using fl_repr [of "int n" 0] by simp

lemma fl_dyadic: "\<bar>k\<bar> < 2 ^ 53 \<Longrightarrow> fl (of_int k / 2 ^ j) = of_int k / 2 ^ j"
  using fl_repr [of k "- int j"] by (simp add: power_int_minus field_simps)

lemma fl_err: "\<bar>fl x - x\<bar> \<le> \<bar>x\<bar> / 2 ^ 53"
proof -
  consider "x = 0" | "0 < x" | "x < 0" by linarith
  then show ?thesis
  proof cases
    case 1
    then show ?thesis by (simp add: fl_0)
  next
    case 2
    then show ?thesis using fl_pos_err [of x] by (simp add: fl_def)
  next
    case 3
    then show ?thesis using fl_pos_err [of "- x"] by (simp add: fl_def)
  qed
qed

section \<open>The validation cascade\<close>

lemma show_nat_MAX: "show_nat MAX_IMAGE_MB = ''10''"
  by code_simp

lemma show_nat_MIN: "show_nat MIN_DIM = ''256''"
  by code_simp

lemma validateImage_cascade:
  "validateImage env file =
     (if \<not> prefix ''image/'' (ftype file)
      then Inr \<lparr>ok = False, reason = Some ''File is not an image.'', details = None\<rparr>
      else if of_nat MAX_IMAGE_MB < size_in_MB file
      then Inr \<lparr>ok = False,
                reason = Some (''Image is too large ('' @ toFixed1 (size_in_MB file)
                               @ '' MB). Max 10 MB.''),
                details = None\<rparr>
      else Inr (after_size_check env file))"
  unfolding validateImage_def size_in_MB_def after_size_check_def Let_def
  by (simp add: show_nat_MAX split: sum.splits)

lemma after_size_check_cascade:
  "after_size_check env file =
     (case decoded env file of
        Inl e \<Rightarrow>
          \<lparr>ok = False, reason = Some ''Could not read the image. Try another file.'',
           details = None\<rparr>
      | Inr img \<Rightarrow>
          if width img < MIN_DIM \<or> height img < MIN_DIM
          then \<lparr>ok = False,
                reason = Some (''Image is too small ('' @ show_nat (width img) @ ''x''
                               @ show_nat (height img) @ ''). Minimum 256x256.''),
                details = None\<rparr>
          else after_dimension_check env file img)"
  unfolding after_size_check_def validateImage_try_def decoded_def after_dimension_check_def
  by (simp add: show_nat_MIN split: sum.splits)

lemma size_in_MB_exact:
  assumes "fsize file < 2 ^ 53"
  shows "size_in_MB file = of_nat (fsize file) / 2 ^ 20"
proof -
  have "fl (of_nat (fsize file)) = of_nat (fsize file)"
    using assms by (rule fl_of_nat)
  moreover have "fl (of_int (int (fsize file)) / 2 ^ 20) = of_int (int (fsize file)) / 2 ^ 20"
    using assms by (intro fl_dyadic) simp
  ultimately show ?thesis by (simp add: size_in_MB_def)
qed

lemma toFixed1_nonneg:
  assumes "0 \<le> x"
  shows "\<exists>n. toFixed1 x = show_nat (n div 10) @ ''.'' @ [digit_char (n mod 10)]
             \<and> \<bar>of_nat n / 10 - x\<bar> \<le> 1 / 20"
proof -
  define n where "n = nat \<lfloor>x * 10 + 1 / 2\<rfloor>"
  have "0 \<le> \<lfloor>x * 10 + 1 / 2\<rfloor>" using assms by simp
  then have "(of_nat n :: rat) = of_int \<lfloor>x * 10 + 1 / 2\<rfloor>" by (simp add: n_def)
  then have "of_nat n \<le> x * 10 + 1 / 2" "x * 10 + 1 / 2 < of_nat n + 1"
    by linarith+
  then have "\<bar>of_nat n / 10 - x\<bar> \<le> 1 / 20" by linarith
  moreover have "toFixed1 x = show_nat (n div 10) @ ''.'' @ [digit_char (n mod 10)]"
    using assms by (simp add: toFixed1_def n_def Let_def)
  ultimately show ?thesis by blast
qed

section \<open>The canvas and the sampling loop\<close>

lemma concat_quads_length:
  assumes "\<And>p. length (F p) = 4"
  shows "length (concat (map F [0..<n])) = 4 * n"
  by (induction n) (simp_all add: assms)

lemma concat_quads_nth:
  assumes "\<And>p. length (F p) = 4" and "p < n" and "c < 4"
  shows "concat (map F [0..<n]) ! (4 * p + c) = F p ! c"
  using assms(2)
proof (induction n)
  case 0
  then show ?case by simp
next
  case (Suc n)
  show ?case
  proof (cases "p < n")
    case True
    then have "4 * p + c < 4 * n" using assms(3) by simp
    then show ?thesis
      using Suc.IH [OF True] by (simp add: nth_append concat_quads_length [OF assms(1)])
  next
    case False
    then have "p = n" using Suc.prems by simp
    then show ?thesis
      using assms(3) by (simp add: nth_append concat_quads_length [OF assms(1)])
  qed
qed

lemma length_image_data: "length (image_data img w h) = 4 * (w * h)"
  unfolding image_data_def by (rule concat_quads_length) (simp split: prod.splits)

lemma elem_image_data:
  assumes "p < w * h" and "resample img w h p = (r, g, b, a)"
  shows "elem (image_data img w h) (4 * p) = Some (of_nat (unat r))"
    and "elem (image_data img w h) (4 * p + 1) = Some (of_nat (unat g))"
    and "elem (image_data img w h) (4 * p + 2) = Some (of_nat (unat b))"
    and "elem (image_data img w h) (4 * p + 3) = Some (of_nat (unat a))"
proof -
  let ?F = "\<lambda>p. case resample img w h p of (r, g, b, a) \<Rightarrow> [r, g, b, a]"
  have len: "\<And>p. length (?F p) = 4" by (simp split: prod.splits)
  have nth: "\<And>c. c < 4 \<Longrightarrow> image_data img w h ! (4 * p + c) = ?F p ! c"
    unfolding image_data_def using len assms(1) by (rule concat_quads_nth)
  have in_range: "\<And>c. c < 4 \<Longrightarrow> 4 * p + c < length (image_data img w h)"
    using assms(1) by (simp add: length_image_data)
  show "elem (image_data img w h) (4 * p) = Some (of_nat (unat r))"
    using nth [of 0] in_range [of 0] by (simp add: elem_def assms(2))
  show "elem (image_data img w h) (4 * p + 1) = Some (of_nat (unat g))"
    using nth [of 1] in_range [of 1] by (simp add: elem_def assms(2))
  show "elem (image_data img w h) (4 * p + 2) = Some (of_nat (unat b))"
    using nth [of 2] in_range [of 2] by (simp add: elem_def assms(2))
  show "elem (image_data img w h) (4 * p + 3) = Some (of_nat (unat a))"
    using nth [of 3] in_range [of 3] by (simp add: elem_def assms(2))
qed

lemma fl_11_10: "fl (11 / 10) = 2476979795053773 / 2251799813685248"
  by code_simp

lemma unat_byte: "unat (x :: 8 word) \<le> 255"
  using unsigned_less [of x, where ?'a = nat] by simp

lemma times_1_1_less:
  fixes r g :: nat
  assumes "r \<le> 255" and "g \<le> 255"
  shows "fl (of_nat r * fl (11 / 10)) < of_nat g \<longleftrightarrow> (of_nat r * (11 / 10) :: rat) < of_nat g"
proof
  assume lt: "(of_nat r * (11 / 10) :: rat) < of_nat g"
  then have "(of_nat (11 * r) :: rat) < of_nat (10 * g)" by simp
  then have "11 * r < 10 * g" by (simp only: of_nat_less_iff)
  then have "11 * r + 1 \<le> 10 * g" by simp
  then have "(of_nat (11 * r + 1) :: rat) \<le> of_nat (10 * g)" by (simp only: of_nat_le_iff)
  then have nat_gap: "11 * (of_nat r :: rat) + 1 \<le> 10 * of_nat g" by simp
  have "(of_nat r :: rat) \<le> of_nat 255" using assms(1) by (simp only: of_nat_le_iff)
  then have r: "(of_nat r :: rat) \<le> 255" by simp
  have g: "0 < g" using \<open>11 * r < 10 * g\<close> by simp
  have "of_nat r * fl (11 / 10) \<le> (of_nat g :: rat) - 1 / 16"
    unfolding fl_11_10 using nat_gap r by linarith
  also have "\<dots> = of_int (16 * int g - 1) / 2 ^ 4" by simp
  finally have "fl (of_nat r * fl (11 / 10)) \<le> fl (of_int (16 * int g - 1) / 2 ^ 4)"
    by (rule fl_mono)
  also have "\<dots> = of_int (16 * int g - 1) / 2 ^ 4"
    using assms(2) by (intro fl_dyadic) simp
  also have "\<dots> < of_nat g" by simp
  finally show "fl (of_nat r * fl (11 / 10)) < of_nat g" .
next
  assume lt: "fl (of_nat r * fl (11 / 10)) < of_nat g"
  show "(of_nat r * (11 / 10) :: rat) < of_nat g"
  proof (rule ccontr)
    assume "\<not> (of_nat r * (11 / 10) :: rat) < of_nat g"
    then have "(of_nat g :: rat) \<le> of_nat r * (11 / 10)" by simp
    also have "\<dots> \<le> of_nat r * fl (11 / 10)"
      unfolding fl_11_10 by (intro mult_left_mono) simp_all
    finally have "fl (of_nat g) \<le> fl (of_nat r * fl (11 / 10))" by (rule fl_mono)
    moreover have "fl (of_nat g) = of_nat g" using assms(2) by (intro fl_of_nat) simp
    ultimately show False using lt by simp
  qed
qed

lemma lt_num_byte_50: "lt_num (Some (of_nat (unat (a :: 8 word)))) (Some 50) \<longleftrightarrow> unat a < 50"
proof -
  have "(of_nat (unat a) :: rat) < of_nat 50 \<longleftrightarrow> unat a < 50" by (simp only: of_nat_less_iff)
  then show ?thesis by simp
qed

lemma lt_num_60_byte: "lt_num (Some 60) (Some (of_nat (unat (g :: 8 word)))) \<longleftrightarrow> 60 < unat g"
proof -
  have "(of_nat 60 :: rat) < of_nat (unat g) \<longleftrightarrow> 60 < unat g" by (simp only: of_nat_less_iff)
  then show ?thesis by simp
qed

lemma lt_num_times_byte:
  "lt_num (times_num (Some (of_nat (unat (r :: 8 word)))) (Some (fl (11 / 10))))
      (Some (of_nat (unat (g :: 8 word))))
   \<longleftrightarrow> (of_nat (unat r) * (11 / 10) :: rat) < of_nat (unat g)"
  using times_1_1_less [OF unat_byte [of r] unat_byte [of g]] by simp

lemma scan_pixel:
  assumes "0 < step"
  shows "scan (image_data img w h) step (4 * p) greenish total' =
    (if p < w * h then
       (if \<not> nontransparent (resample img w h p)
        then scan (image_data img w h) step (4 * (p + step)) greenish total'
        else scan (image_data img w h) step (4 * (p + step))
               (if green_dominant (resample img w h p) then greenish + 1 else greenish) (total' + 1))
     else (greenish, total'))"
proof (cases "p < w * h")
  case False
  then show ?thesis
    by (subst scan.simps) (simp add: length_image_data)
next
  case True
  obtain r g b a where px: "resample img w h p = (r, g, b, a)"
    by (cases "resample img w h p") auto
  have idx: "4 * p < length (image_data img w h)"
    using True by (simp add: length_image_data)
  have next_i: "4 * p + 4 * step = 4 * (p + step)" by simp
  show ?thesis
    apply (subst scan.simps)
    apply (simp only: idx assms elem_image_data [OF True px] Let_def next_i
        lt_num_byte_50 lt_num_60_byte lt_num_times_byte)
    apply (simp add: True px nontransparent_def green_dominant_def)
    done
qed

lemma mod_between:
  fixes p q step :: nat
  assumes "p mod step = 0" and "p < q" and "q < p + step"
  shows "q mod step \<noteq> 0"
proof -
  obtain d where d: "q = p + d" "0 < d" "d < step"
    using assms(2,3) by (metis add_diff_inverse_nat less_imp_le_nat nat_add_left_cancel_less
        not_less zero_less_diff)
  have "q mod step = (p mod step + d mod step) mod step"
    unfolding d(1) by (simp add: mod_add_eq)
  then show ?thesis using assms(1) d by simp
qed

lemma filter_stride:
  fixes p n step :: nat
  assumes "0 < step" and "p mod step = 0" and "p < n"
  shows "filter (\<lambda>q. q mod step = 0) [p..<n] = p # filter (\<lambda>q. q mod step = 0) [p + step..<n]"
proof -
  have none: "filter (\<lambda>q. q mod step = 0) [Suc p..<min n (p + step)] = []"
    using mod_between [OF assms(2)] by (auto simp: filter_empty_conv)
  have "Suc p \<le> min n (p + step)" using assms(1,3) by simp
  moreover have "min n (p + step) \<le> n" by simp
  ultimately have "[Suc p..<n] = [Suc p..<min n (p + step)] @ [min n (p + step)..<n]"
    by (metis le_Suc_ex upt_add_eq_append)
  moreover have "[min n (p + step)..<n] = [p + step..<n]"
    by (cases "p + step \<le> n") (simp_all add: min_def)
  ultimately have "filter (\<lambda>q. q mod step = 0) [Suc p..<n] = filter (\<lambda>q. q mod step = 0) [p + step..<n]"
    using none by simp
  then show ?thesis using assms by (simp add: upt_conv_Cons)
qed

lemma scan_counts:
  assumes "0 < step" and "p mod step = 0"
  shows "scan (image_data img w h) step (4 * p) greenish total' =
    (greenish + length (filter green_dominant (filter nontransparent
        (map (resample img w h) (filter (\<lambda>q. q mod step = 0) [p..<w * h])))),
     total' + length (filter nontransparent
        (map (resample img w h) (filter (\<lambda>q. q mod step = 0) [p..<w * h]))))"
  using assms(2)
proof (induction "w * h - p" arbitrary: p greenish total' rule: less_induct)
  case less
  show ?case
  proof (cases "p < w * h")
    case False
    then show ?thesis by (subst scan_pixel [OF assms(1)]) simp
  next
    case True
    have smaller: "w * h - (p + step) < w * h - p" using True assms(1) by simp
    have aligned: "(p + step) mod step = 0" using less.prems by simp
    note IH = less.hyps [OF smaller aligned]
    note S = filter_stride [OF assms(1) less.prems True]
    show ?thesis
      apply (subst scan_pixel [OF assms(1)])
      apply (simp only: True if_True IH S)
      apply simp
      done
  qed
qed

lemma spec_stride_pos: "0 < spec_stride n"
  by (simp add: spec_stride_def)

lemma stride_eq:
  assumes "n < 2 ^ 38"
  shows "max 1 (nat \<lfloor>fl (fl (of_nat (4 * n) / 4) / 10000)\<rfloor>) = spec_stride n"
proof -
  define k where "k = n div 10000"
  have n53: "n < 2 ^ 53" using assms by (rule less_trans) simp
  have "n mod 10000 < 10000" by simp
  then have "n mod 10000 \<le> 9999" by linarith
  then have "k * 10000 \<le> n" "n \<le> k * 10000 + 9999"
    unfolding k_def using div_mult_mod_eq [of n 10000] by linarith+
  then have "(of_nat (k * 10000) :: rat) \<le> of_nat n" "(of_nat n :: rat) \<le> of_nat (k * 10000 + 9999)"
    by (simp_all only: of_nat_le_iff)
  then have bounds: "(of_nat k :: rat) * 10000 \<le> of_nat n" "(of_nat n :: rat) \<le> of_nat k * 10000 + 9999"
    by simp_all
  have "k \<le> n" unfolding k_def by (rule div_le_dividend)
  then have k38: "k < 2 ^ 38" using assms by (rule le_less_trans)
  have "fl (of_nat k) \<le> fl (of_nat n / 10000)"
    using bounds(1) by (intro fl_mono) simp
  moreover have "fl (of_nat k) = of_nat k"
    using k38 by (intro fl_of_nat) simp
  ultimately have lower: "of_int (int k) \<le> fl (of_nat n / 10000)" by simp
  have "(of_nat n :: rat) / 10000 \<le> of_int (16384 * (int k + 1) - 1) / 2 ^ 14"
    using bounds(2) by simp
  then have "fl (of_nat n / 10000) \<le> fl (of_int (16384 * (int k + 1) - 1) / 2 ^ 14)"
    by (rule fl_mono)
  also have "\<dots> = of_int (16384 * (int k + 1) - 1) / 2 ^ 14"
    using k38 by (intro fl_dyadic) simp
  also have "\<dots> < of_int (int k) + 1" by simp
  finally have upper: "fl (of_nat n / 10000) < of_int (int k) + 1" .
  have "\<lfloor>fl (of_nat n / 10000)\<rfloor> = int k"
    using lower upper by (rule floor_unique)
  then show ?thesis by (simp add: fl_of_nat [OF n53] spec_stride_def k_def)
qed

lemma canvas_side_pos: "1 \<le> canvas_side side scale"
  by (simp add: canvas_side_def)

lemma canvas_side_le:
  assumes "side \<le> longer" and "0 < longer"
  shows "canvas_side side (min 1 (fl (512 / of_nat longer))) \<le> 512"
proof -
  define L :: rat where "L = of_nat longer"
  define s where "s = fl (512 / L)"
  have L: "0 < L" using assms(2) by (simp add: L_def)
  have s0: "0 \<le> s" unfolding s_def using L by (intro fl_nonneg) simp
  have "\<bar>s - 512 / L\<bar> \<le> \<bar>512 / L\<bar> / 2 ^ 53" unfolding s_def by (rule fl_err)
  then have "s \<le> 512 / L + 512 / L / 2 ^ 53" using L by (simp add: abs_le_iff)
  then have "L * s \<le> L * (512 / L + 512 / L / 2 ^ 53)"
    using L by (intro mult_left_mono) simp_all
  also have "\<dots> = 512 + 512 / 2 ^ 53" using L by (simp add: field_simps)
  also have "\<dots> \<le> 1025 / 2" by simp
  finally have Ls: "L * s \<le> 1025 / 2" .
  have "(of_nat side :: rat) \<le> L" unfolding L_def using assms(1) by (simp only: of_nat_le_iff)
  then have "of_nat side * min 1 s \<le> L * s"
    using s0 by (intro mult_mono) simp_all
  then have "of_nat side * min 1 s \<le> of_int 1025 / 2 ^ 1" using Ls by simp
  then have "fl (of_nat side * min 1 s) \<le> fl (of_int 1025 / 2 ^ 1)" by (rule fl_mono)
  also have "\<dots> = of_int 1025 / 2 ^ 1" by (intro fl_dyadic) simp
  finally have "fl (of_nat side * min 1 s) < 513" by simp
  then have "\<lfloor>fl (of_nat side * min 1 s)\<rfloor> < 513" by (simp add: floor_less_iff)
  then have "nat \<lfloor>fl (of_nat side * min 1 s)\<rfloor> \<le> 512" by linarith
  then show ?thesis unfolding canvas_side_def s_def L_def by simp
qed

lemma canvas_side_unscaled:
  assumes "side \<le> longer" and "0 < longer" and "longer \<le> 512" and "0 < side"
  shows "canvas_side side (min 1 (fl (512 / of_nat longer))) = side"
proof -
  have "(of_nat longer :: rat) \<le> of_nat 512" using assms(3) by (simp only: of_nat_le_iff)
  then have "(1::rat) \<le> 512 / of_nat longer" using assms(2) by (simp add: le_divide_eq)
  then have "fl 1 \<le> fl (512 / of_nat longer)" by (rule fl_mono)
  moreover have "fl 1 = 1" using fl_of_nat [of 1] by simp
  ultimately have scale: "min 1 (fl (512 / of_nat longer)) = 1" by simp
  have "side < 2 ^ 53" using assms(1,3) by simp
  then have "fl (of_nat side) = of_nat side" by (rule fl_of_nat)
  then show ?thesis using assms(4) by (simp add: canvas_side_def scale)
qed

lemma canvas_size_bounds:
  assumes "canvas_size img = (cw, ch)"
  shows "1 \<le> cw" "cw \<le> 512" "1 \<le> ch" "ch \<le> 512"
proof -
  show "1 \<le> cw" "1 \<le> ch"
    using assms canvas_side_pos by (auto simp: canvas_size_def Let_def)
  show "cw \<le> 512"
  proof (cases "max (width img) (height img) = 0")
    case True
    then show ?thesis using assms by (auto simp: canvas_size_def canvas_side_def fl_0)
  next
    case False
    then show ?thesis
      using assms canvas_side_le [of "width img" "max (width img) (height img)"]
      by (auto simp: canvas_size_def Let_def)
  qed
  show "ch \<le> 512"
  proof (cases "max (width img) (height img) = 0")
    case True
    then show ?thesis using assms by (auto simp: canvas_size_def canvas_side_def fl_0)
  next
    case False
    then show ?thesis
      using assms canvas_side_le [of "height img" "max (width img) (height img)"]
      by (auto simp: canvas_size_def Let_def)
  qed
qed

lemma canvas_size_unscaled:
  assumes "0 < width img" and "0 < height img" and "width img \<le> 512" and "height img \<le> 512"
  shows "canvas_size img = (width img, height img)"
  using assms canvas_side_unscaled [of "width img" "max (width img) (height img)"]
    canvas_side_unscaled [of "height img" "max (width img) (height img)"]
  by (simp add: canvas_size_def Let_def)

lemma score_of_image_data:
  assumes "canvas_size img = (cw, ch)"
  shows "(case scan (image_data img cw ch)
            (max 1 (nat \<lfloor>fl (fl (of_nat (length (image_data img cw ch)) / 4) / 10000)\<rfloor>)) 0 0 0
          of (greenish, total') \<Rightarrow>
            if total' \<noteq> 0 then fl (of_nat greenish / of_nat total') else 0)
    = spec_score img"
proof -
  note b = canvas_size_bounds [OF assms]
  have "cw * ch \<le> 512 * 512" using b(2,4) by (rule mult_le_mono)
  then have small: "cw * ch < 2 ^ 38" by simp
  define data where "data = image_data img cw ch"
  have len: "length data = 4 * (cw * ch)" by (simp add: data_def length_image_data)
  have step: "max 1 (nat \<lfloor>fl (fl (of_nat (length data) / 4) / 10000)\<rfloor>) = spec_stride (cw * ch)"
    unfolding len using small by (rule stride_eq)
  have "scan data (spec_stride (cw * ch)) (4 * 0) 0 0 =
    (0 + length (filter green_dominant (filter nontransparent
        (map (resample img cw ch) (filter (\<lambda>q. q mod spec_stride (cw * ch) = 0) [0..<cw * ch])))),
     0 + length (filter nontransparent
        (map (resample img cw ch) (filter (\<lambda>q. q mod spec_stride (cw * ch) = 0) [0..<cw * ch]))))"
    unfolding data_def by (rule scan_counts [OF spec_stride_pos]) simp
  moreover have "spec_samples img
      = map (resample img cw ch) (filter (\<lambda>q. q mod spec_stride (cw * ch) = 0) [0..<cw * ch])"
    by (simp add: spec_samples_def assms)
  ultimately have counts: "scan data (spec_stride (cw * ch)) 0 0 0 =
    (length (filter green_dominant (filter nontransparent (spec_samples img))),
     length (filter nontransparent (spec_samples img)))"
    by simp
  show ?thesis
    unfolding data_def [symmetric] step by (simp add: counts spec_score_def Let_def)
qed

lemma computeVegetationScore_canvas:
  "computeVegetationScore env img =
     (case canvas_size img of (cw, ch) \<Rightarrow>
        if \<not> context2d env then Inr 0
        else
          (case getImageData env img cw ch of
             Inl e \<Rightarrow> Inl e
           | Inr data \<Rightarrow>
               Inr (case scan data
                      (max 1 (nat \<lfloor>fl (fl (of_nat (length data) / 4) / 10000)\<rfloor>)) 0 0 0
                    of (greenish, total') \<Rightarrow>
                      if total' \<noteq> 0 then fl (of_nat greenish / of_nat total') else 0)))"
  unfolding computeVegetationScore_def canvas_size_def Let_def
  by (simp split: sum.splits prod.splits)

lemma computeVegetationScore_spec:
  "computeVegetationScore env img =
     (if \<not> context2d env then Inr 0
      else case canvas_size img of (cw, ch) \<Rightarrow>
        (case canvas_raises env img cw ch of Some e \<Rightarrow> Inl e | None \<Rightarrow> Inr (spec_score img)))"
proof -
  obtain cw ch where size: "canvas_size img = (cw, ch)" by (cases "canvas_size img") auto
  show ?thesis
    unfolding computeVegetationScore_canvas size
    using score_of_image_data [OF size]
    by (cases "canvas_raises env img cw ch") (simp_all add: getImageData_def)
qed

lemma computeVegetationScore_read:
  assumes "canvas_read env img"
  shows "computeVegetationScore env img = Inr (spec_score img)"
  using assms by (auto simp: computeVegetationScore_spec canvas_read_def split: prod.splits)

lemma computeVegetationScore_returned:
  assumes "computeVegetationScore env img = Inr s"
  shows "s = 0 \<or> s = spec_score img"
  using assms by (auto simp: computeVegetationScore_spec split: prod.splits option.splits if_splits)

lemma scaled_side_near:
  assumes "\<bar>y - x\<bar> \<le> 1 / 2 ^ 42"
  shows "scaled_side x (max 1 (nat \<lfloor>y\<rfloor>))"
proof -
  have "\<lfloor>x - 1 / 2 ^ 42\<rfloor> \<le> \<lfloor>y\<rfloor>" "\<lfloor>y\<rfloor> \<le> \<lfloor>x + 1 / 2 ^ 42\<rfloor>"
    using assms by (intro floor_mono; linarith)+
  then show ?thesis unfolding scaled_side_def by linarith
qed

lemma canvas_side_scaled:
  assumes "side \<le> longer" and "0 < longer"
  shows "scaled_side (of_nat side * min 1 (512 / of_nat longer))
           (canvas_side side (min 1 (fl (512 / of_nat longer))))"
proof (cases "longer \<le> 512")
  case True
  have "(of_nat longer :: rat) \<le> of_nat 512" using True by (simp only: of_nat_le_iff)
  then have q: "(1::rat) \<le> 512 / of_nat longer" using assms(2) by (simp add: le_divide_eq)
  then have "fl 1 \<le> fl (512 / of_nat longer)" by (rule fl_mono)
  moreover have "fl 1 = 1" using fl_of_nat [of 1] by simp
  ultimately have scale: "min 1 (fl (512 / of_nat longer)) = 1" by simp
  have exact: "min 1 (512 / of_nat longer :: rat) = 1" using q by simp
  have "side < 2 ^ 53" using assms(1) True by simp
  then have "fl (of_nat side) = of_nat side" by (rule fl_of_nat)
  then show ?thesis
    unfolding canvas_side_def scale exact by (intro scaled_side_near) simp
next
  case False
  define L :: rat where "L = of_nat longer"
  define q where "q = 512 / L"
  define s where "s = fl q"
  define w :: rat where "w = of_nat side"
  have "512 < longer" using False by simp
  then have "(of_nat 512 :: rat) < of_nat longer" by (simp only: of_nat_less_iff)
  then have L: "512 < L" by (simp add: L_def)
  have q: "0 < q" "q \<le> 1" using L by (simp_all add: q_def)
  have "s \<le> fl 1" unfolding s_def using q(2) by (rule fl_mono)
  moreover have "fl 1 = 1" using fl_of_nat [of 1] by simp
  ultimately have s1: "s \<le> 1" by simp
  have w: "0 \<le> w" "w \<le> L"
    using assms(1) of_nat_le_iff [of side longer, where ?'a = rat] by (simp_all add: w_def L_def)
  have "w * q \<le> L * q" using w(2) q(1) by (intro mult_right_mono) simp_all
  also have "L * q = 512" using L by (simp add: q_def)
  finally have wq: "w * q \<le> 512" .
  have "\<bar>s - q\<bar> \<le> \<bar>q\<bar> / 2 ^ 53" unfolding s_def by (rule fl_err)
  then have sq: "\<bar>s - q\<bar> \<le> q / 2 ^ 53" using q(1) by simp
  have "\<bar>w * s - w * q\<bar> = w * \<bar>s - q\<bar>"
    using w(1) by (simp add: right_diff_distrib [symmetric] abs_mult)
  also have "\<dots> \<le> w * (q / 2 ^ 53)" using sq w(1) by (rule mult_left_mono)
  also have "\<dots> = w * q / 2 ^ 53" by simp
  also have "\<dots> \<le> 512 / 2 ^ 53" using wq by (intro divide_right_mono) simp_all
  finally have first: "\<bar>w * s - w * q\<bar> \<le> 512 / 2 ^ 53" .
  have wq0: "0 \<le> w * q" using w(1) q(1) by simp
  have tiny: "(512::rat) / 2 ^ 53 \<le> 1" "(512::rat) / 2 ^ 53 + 513 / 2 ^ 53 \<le> 1 / 2 ^ 42"
    by simp_all
  have ws: "\<bar>w * s\<bar> \<le> 513" using first tiny(1) wq wq0 by linarith
  have "\<bar>fl (w * s) - w * s\<bar> \<le> \<bar>w * s\<bar> / 2 ^ 53" by (rule fl_err)
  also have "\<dots> \<le> 513 / 2 ^ 53" using ws by (intro divide_right_mono) simp_all
  finally have second: "\<bar>fl (w * s) - w * s\<bar> \<le> 513 / 2 ^ 53" .
  have near: "\<bar>fl (w * s) - w * q\<bar> \<le> 1 / 2 ^ 42" using first second tiny(2) by linarith
  have m: "min 1 s = s" "min 1 q = q" using s1 q(2) by simp_all
  have r: "scaled_side (w * q) (max 1 (nat \<lfloor>fl (w * s)\<rfloor>))"
    using near by (rule scaled_side_near)
  show ?thesis
    unfolding canvas_side_def using r m unfolding w_def s_def q_def L_def by (simp only:)
qed

lemma canvas_size_scaled:
  assumes "canvas_size img = (cw, ch)"
  shows "scaled_side (of_nat (width img) * spec_scale img) cw"
    and "scaled_side (of_nat (height img) * spec_scale img) ch"
proof -
  show "scaled_side (of_nat (width img) * spec_scale img) cw"
  proof (cases "max (width img) (height img) = 0")
    case True
    then show ?thesis
      using assms by (auto simp: canvas_size_def canvas_side_def spec_scale_def scaled_side_def fl_0)
  next
    case False
    then show ?thesis
      using assms canvas_side_scaled [of "width img" "max (width img) (height img)"]
      by (auto simp: canvas_size_def Let_def spec_scale_def)
  qed
  show "scaled_side (of_nat (height img) * spec_scale img) ch"
  proof (cases "max (width img) (height img) = 0")
    case True
    then show ?thesis
      using assms by (auto simp: canvas_size_def canvas_side_def spec_scale_def scaled_side_def fl_0)
  next
    case False
    then show ?thesis
      using assms canvas_side_scaled [of "height img" "max (width img) (height img)"]
      by (auto simp: canvas_size_def Let_def spec_scale_def)
  qed
qed

section \<open>The score of the specification\<close>

lemma fl_1: "fl 1 = 1"
  using fl_of_nat [of 1] by simp

lemma fl_unit_interval:
  assumes "0 \<le> x" and "x \<le> 1"
  shows "0 \<le> fl x" and "fl x \<le> 1"
  using fl_nonneg [OF assms(1)] fl_mono [OF assms(2)] by (simp_all add: fl_1)

lemma spec_score_range: "0 \<le> spec_score img" "spec_score img \<le> 1"
proof -
  let ?counted = "filter nontransparent (spec_samples img)"
  let ?green = "filter green_dominant ?counted"
  have "length ?green \<le> length ?counted" by (rule length_filter_le)
  then have "(of_nat (length ?green) :: rat) \<le> of_nat (length ?counted)"
    by (simp only: of_nat_le_iff)
  then have "(of_nat (length ?green) :: rat) / of_nat (length ?counted) \<le> 1"
    by (simp add: divide_le_eq_1)
  moreover have "(0::rat) \<le> of_nat (length ?green) / of_nat (length ?counted)" by simp
  ultimately show "0 \<le> spec_score img" "spec_score img \<le> 1"
    using fl_unit_interval by (simp_all add: spec_score_def Let_def)
qed

lemma spec_score_none:
  assumes "filter nontransparent (spec_samples img) = []"
  shows "spec_score img = 0"
  using assms by (simp add: spec_score_def Let_def)

lemma spec_samples_nonempty: "spec_samples img \<noteq> []"
proof -
  obtain cw ch where size: "canvas_size img = (cw, ch)" by (cases "canvas_size img") auto
  have "0 < cw * ch" using canvas_size_bounds(1,3) [OF size] by simp
  then have "\<exists>p \<in> set [0..<cw * ch]. p mod spec_stride (cw * ch) = 0"
    by (intro bexI [of _ 0]) simp_all
  then have "filter (\<lambda>p. p mod spec_stride (cw * ch) = 0) [0..<cw * ch] \<noteq> []"
    by (auto simp: filter_empty_conv)
  then show ?thesis by (simp add: spec_samples_def size)
qed

lemma spec_samples_uniform:
  assumes "\<And>w h p. resample img w h p = px"
  shows "set (spec_samples img) = {px}"
proof -
  have "set (spec_samples img) \<subseteq> {px}"
    using assms by (auto simp: spec_samples_def split: prod.splits)
  moreover have "set (spec_samples img) \<noteq> {}" using spec_samples_nonempty by simp
  ultimately show ?thesis by (metis subset_singletonD)
qed

lemma spec_score_uniform_green:
  assumes "\<And>w h p. resample img w h p = px" and "nontransparent px" and "green_dominant px"
  shows "spec_score img = 1"
proof -
  have all: "\<forall>x \<in> set (spec_samples img). x = px"
    using spec_samples_uniform [of img px] assms(1) by simp
  then have c: "filter nontransparent (spec_samples img) = spec_samples img"
    using assms(2) by (auto simp: filter_id_conv)
  have g: "filter green_dominant (spec_samples img) = spec_samples img"
    using all assms(3) by (auto simp: filter_id_conv)
  have "length (spec_samples img) \<noteq> 0" using spec_samples_nonempty by simp
  then show ?thesis by (simp add: spec_score_def Let_def c g fl_1)
qed

lemma MIN_VEG_SCORE_value: "MIN_VEG_SCORE = 5764607523034235 / 72057594037927936"
  unfolding MIN_VEG_SCORE_def by code_simp

lemma MIN_VEG_SCORE_pos: "0 < MIN_VEG_SCORE"
  by (simp add: MIN_VEG_SCORE_value)

lemma leaf_png_facts:
  "prefix ''image/'' (ftype leaf_png)" "size_in_MB leaf_png = 3"
  "\<not> of_nat MAX_IMAGE_MB < size_in_MB leaf_png"
proof -
  show "prefix ''image/'' (ftype leaf_png)" by (simp add: leaf_png_def)
  show s: "size_in_MB leaf_png = 3" by (simp add: size_in_MB_exact leaf_png_def)
  show "\<not> of_nat MAX_IMAGE_MB < size_in_MB leaf_png" by (simp add: s MAX_IMAGE_MB_def)
qed

lemma length_spec_samples: "length (spec_samples img) \<le> 512 * 512"
proof -
  obtain cw ch where size: "canvas_size img = (cw, ch)" by (cases "canvas_size img") auto
  have "length (spec_samples img) \<le> length [0..<cw * ch]"
    unfolding spec_samples_def size by (simp del: length_upt)
  also have "\<dots> = cw * ch" by simp
  also have "\<dots> \<le> 512 * 512"
    using canvas_size_bounds(2,4) [OF size] by (rule mult_le_mono)
  finally show ?thesis .
qed

lemma ratio_below_threshold:
  fixes g t :: nat
  assumes "0 < t" and "t \<le> 512 * 512" and "(of_nat g :: rat) / of_nat t < 8 / 100"
  shows "fl (of_nat g / of_nat t) \<le> 5764607522967126 / 72057594037927936"
proof -
  have t: "(0::rat) < of_nat t" using assms(1) by simp
  have "(of_nat g :: rat) * 100 < 8 * of_nat t"
    using assms(3) t by (simp add: divide_less_eq)
  then have "(of_nat (g * 100) :: rat) < of_nat (8 * t)" by simp
  then have "g * 100 < 8 * t" by (simp only: of_nat_less_iff)
  then have "g * 100 + 1 \<le> 8 * t" by simp
  then have "(of_nat (g * 100 + 1) :: rat) \<le> of_nat (8 * t)" by (simp only: of_nat_le_iff)
  then have gap: "(of_nat g :: rat) * 100 + 1 \<le> 8 * of_nat t" by simp
  have "(of_nat t :: rat) \<le> of_nat (512 * 512)" using assms(2) by (simp only: of_nat_le_iff)
  then have tb: "(of_nat t :: rat) \<le> 262144" by simp
  have "(of_nat g :: rat) * 72057594037927936 \<le> 5764607522967126 * of_nat t"
    using gap tb by linarith
  then have "(of_nat g :: rat) / of_nat t \<le> of_int 5764607522967126 / 2 ^ 56"
    using t by (simp add: divide_le_eq)
  then have "fl (of_nat g / of_nat t) \<le> fl (of_int 5764607522967126 / 2 ^ 56)"
    by (rule fl_mono)
  also have "\<dots> = of_int 5764607522967126 / 2 ^ 56" by (intro fl_dyadic) simp
  finally show ?thesis by simp
qed

lemma spec_score_threshold: "spec_score img < MIN_VEG_SCORE \<longleftrightarrow> spec_score img < 8 / 100"
proof (cases "filter nontransparent (spec_samples img) = []")
  case True
  then show ?thesis by (simp add: spec_score_def MIN_VEG_SCORE_value)
next
  case False
  let ?counted = "filter nontransparent (spec_samples img)"
  let ?green = "filter green_dominant ?counted"
  let ?ratio = "(of_nat (length ?green) :: rat) / of_nat (length ?counted)"
  have score: "spec_score img = fl ?ratio" using False by (simp add: spec_score_def Let_def)
  have pos: "0 < length ?counted" using False by simp
  have "length ?counted \<le> length (spec_samples img)" by (rule length_filter_le)
  then have small: "length ?counted \<le> 512 * 512" using length_spec_samples [of img] by (rule le_trans)
  show ?thesis
  proof (cases "?ratio < 8 / 100")
    case True
    have "spec_score img \<le> 5764607522967126 / 72057594037927936"
      unfolding score using pos small True by (rule ratio_below_threshold)
    then show ?thesis by (simp add: MIN_VEG_SCORE_value)
  next
    case False
    then have "8 / 100 \<le> ?ratio" by simp
    then have "fl (8 / 100) \<le> spec_score img" unfolding score by (rule fl_mono)
    then have "MIN_VEG_SCORE \<le> spec_score img" by (simp add: MIN_VEG_SCORE_def)
    then show ?thesis by (simp add: MIN_VEG_SCORE_value)
  qed
qed

lemma threshold_exact:
  assumes "computeVegetationScore env img = Inr s"
  shows "s < MIN_VEG_SCORE \<longleftrightarrow> s < 8 / 100"
  using computeVegetationScore_returned [OF assms] spec_score_threshold [of img]
  by (auto simp: MIN_VEG_SCORE_value)

lemma browser_showing_facts:
  "decoded (browser_showing img) file = Inr img" "context2d (browser_showing img)"
  "canvas_read (browser_showing img) i"
  by (simp_all add: decoded_def loadImageFromBlob_def browser_showing_def canvas_read_def
      split: prod.splits)

lemma spec_score_all_green:
  assumes "\<forall>px \<in> set (spec_samples img). nontransparent px \<and> green_dominant px"
  shows "spec_score img = 1"
proof -
  have c: "filter nontransparent (spec_samples img) = spec_samples img"
    using assms by (auto simp: filter_id_conv)
  have g: "filter green_dominant (spec_samples img) = spec_samples img"
    using assms by (auto simp: filter_id_conv)
  have "length (spec_samples img) \<noteq> 0" using spec_samples_nonempty by simp
  then show ?thesis by (simp add: spec_score_def Let_def c g fl_1)
qed

lemma green_pixel: "nontransparent (0, 200, 0, 255)" "green_dominant (0, 200, 0, 255)"
  by (simp_all add: nontransparent_def green_dominant_def)

lemma green_image_score:
  "computeVegetationScore (browser_showing green_image) green_image = Inr 1"
proof -
  have "spec_score green_image = 1"
    by (rule spec_score_uniform_green [where px = "(0, 200, 0, 255)"])
      (simp_all add: green_image_def green_pixel)
  then show ?thesis by (simp add: computeVegetationScore_read browser_showing_facts)
qed

lemma too_large_differs:
  "''Could not read the image. Try another file.'' \<noteq> ''Image is too large ('' @ x"
  "''Image is too small ('' @ y \<noteq> ''Image is too large ('' @ x"
  "''Wrong image: looks unlike a crop/leaf. Please upload a clear leaf/plant photo.''
     \<noteq> ''Image is too large ('' @ x"
  by simp_all

lemma too_small_differs:
  "''Could not read the image. Try another file.'' \<noteq> ''Image is too small ('' @ x"
  "''Wrong image: looks unlike a crop/leaf. Please upload a clear leaf/plant photo.''
     \<noteq> ''Image is too small ('' @ x"
  by simp_all

lemma after_dimension_check_reason:
  "reason (after_dimension_check env file img) \<noteq> Some (''Image is too small ('' @ x)"
  "reason (after_dimension_check env file img) \<noteq> Some (''Image is too large ('' @ x)"
  unfolding after_dimension_check_def
  by (simp_all split: sum.splits add: too_small_differs too_large_differs)

lemma after_size_check_reason:
  "reason (after_size_check env file) \<noteq> Some (''Image is too large ('' @ x)"
proof (cases "decoded env file")
  case (Inl e)
  then show ?thesis by (simp add: after_size_check_cascade)
next
  case (Inr img)
  show ?thesis
  proof (cases "width img < MIN_DIM \<or> height img < MIN_DIM")
    case True
    then show ?thesis using Inr by (simp add: after_size_check_cascade)
  next
    case False
    then have "after_size_check env file = after_dimension_check env file img"
      using Inr by (simp add: after_size_check_cascade)
    then show ?thesis using after_dimension_check_reason(2) [of env "file" img x] by simp
  qed
qed

lemma canvas_size_striped: "canvas_size striped_image = (512, 40)"
proof -
  have half: "fl (1 / 2) = 1 / 2" using fl_dyadic [of 1 1] by simp
  have whole: "fl 512 = 512" "fl 40 = 40" using fl_of_nat [of 512] fl_of_nat [of 40] by simp_all
  show ?thesis
    by (simp add: canvas_size_def canvas_side_def striped_image_def Let_def half whole)
qed

lemma canvas_size_square_561: "canvas_size square_561 = (511, 511)"
proof -
  have scale: "fl (512 / 561) = 2055118546536269 / 2251799813685248" by code_simp
  have side: "fl (1152921504606846909 / 2251799813685248) = 9007199254740991 / 17592186044416"
    by code_simp
  have "\<lfloor>9007199254740991 / 17592186044416 :: rat\<rfloor> = 511" by (simp add: floor_unique)
  then show ?thesis
    by (simp add: canvas_size_def canvas_side_def square_561_def Let_def scale side)
qed

section \<open>The rejections and the limits\<close>

text \<open>
  Claim C8.  A file whose declared media type does not start with \<open>image/\<close> is rejected
  with the reason \<open>File is not an image.\<close>, whatever the browser makes of its content and
  whatever its size.
\<close>

theorem non_image_rejected:
  assumes "\<not> prefix ''image/'' (ftype file)"
  shows "validateImage env file
    = Inr \<lparr>ok = False, reason = Some ''File is not an image.'', details = None\<rparr>"
  using assms by (simp add: validateImage_cascade)

theorem non_image_rejected_witness:
  "\<not> prefix ''image/'' (ftype notes_txt)
   \<and> validateImage (browser_showing green_image) notes_txt
     = Inr \<lparr>ok = False, reason = Some ''File is not an image.'', details = None\<rparr>"
proof -
  have h: "\<not> prefix ''image/'' (ftype notes_txt)" by (simp add: notes_txt_def)
  show ?thesis using h non_image_rejected [OF h] by simp
qed

text \<open>
  Claim C6.  A file of an image media type whose size in megabytes exceeds \<open>MAX_IMAGE_MB\<close>
  is rejected with the reason \<open>Image is too large (X.X MB). Max 10 MB.\<close>, where \<open>X.X\<close> is
  the size in megabytes with one digit after the point: the tenths \<open>n\<close> nearest to the
  size, printed as \<open>n div 10\<close>, a point and the digit \<open>n mod 10\<close>.
\<close>

theorem too_large_rejected:
  assumes "prefix ''image/'' (ftype file)" and "of_nat MAX_IMAGE_MB < size_in_MB file"
  shows "validateImage env file
      = Inr \<lparr>ok = False,
             reason = Some (''Image is too large ('' @ toFixed1 (size_in_MB file) @ '' MB). Max 10 MB.''),
             details = None\<rparr>
    \<and> (\<exists>n. toFixed1 (size_in_MB file) = show_nat (n div 10) @ ''.'' @ [digit_char (n mod 10)]
            \<and> \<bar>of_nat n / 10 - size_in_MB file\<bar> \<le> 1 / 20)"
proof
  show "validateImage env file
      = Inr \<lparr>ok = False,
             reason = Some (''Image is too large ('' @ toFixed1 (size_in_MB file) @ '' MB). Max 10 MB.''),
             details = None\<rparr>"
    using assms by (simp add: validateImage_cascade)
  have "0 \<le> size_in_MB file" using assms(2) by (simp add: MAX_IMAGE_MB_def)
  then show "\<exists>n. toFixed1 (size_in_MB file) = show_nat (n div 10) @ ''.'' @ [digit_char (n mod 10)]
            \<and> \<bar>of_nat n / 10 - size_in_MB file\<bar> \<le> 1 / 20"
    by (rule toFixed1_nonneg)
qed

theorem too_large_rejected_witness:
  "prefix ''image/'' (ftype huge_png) \<and> of_nat MAX_IMAGE_MB < size_in_MB huge_png
   \<and> validateImage decodes_nothing huge_png
     = Inr \<lparr>ok = False, reason = Some ''Image is too large (12.3 MB). Max 10 MB.'',
            details = None\<rparr>"
proof -
  have t: "prefix ''image/'' (ftype huge_png)" by (simp add: huge_png_def)
  have s: "size_in_MB huge_png = 12897485 / 1048576"
    by (simp add: size_in_MB_exact huge_png_def)
  have l: "of_nat MAX_IMAGE_MB < size_in_MB huge_png" by (simp add: s MAX_IMAGE_MB_def)
  have "toFixed1 (12897485 / 1048576) = ''12.3''" by code_simp
  then show ?thesis using t l too_large_rejected [OF t l, of decodes_nothing] by (simp add: s)
qed

text \<open>
  Claim C5.  For every file and every answer of the browser, \<open>validateImage\<close> returns a
  verdict, accepted without a reason or rejected with one, and no exception leaves it.
  A file of an image media type and of acceptable size that the browser fails to decode
  gets the verdict rejected with the reason \<open>Could not read the image. Try another file.\<close>,
  and so does one whose decoded image makes the canvas calls raise.
\<close>

theorem no_exception_escapes:
  "(\<exists>v. validateImage env file = Inr v \<and> (ok v \<longleftrightarrow> reason v = None))
   \<and> (prefix ''image/'' (ftype file) \<and> \<not> of_nat MAX_IMAGE_MB < size_in_MB file
        \<and> decoded env file = Inl e \<longrightarrow>
      validateImage env file
        = Inr \<lparr>ok = False, reason = Some ''Could not read the image. Try another file.'',
               details = None\<rparr>)
   \<and> (prefix ''image/'' (ftype file) \<and> \<not> of_nat MAX_IMAGE_MB < size_in_MB file
        \<and> decoded env file = Inr img \<and> MIN_DIM \<le> width img \<and> MIN_DIM \<le> height img
        \<and> computeVegetationScore env img = Inl e' \<longrightarrow>
      validateImage env file
        = Inr \<lparr>ok = False, reason = Some ''Could not read the image. Try another file.'',
               details = None\<rparr>)"
proof (intro conjI)
  show "\<exists>v. validateImage env file = Inr v \<and> (ok v \<longleftrightarrow> reason v = None)"
    by (simp add: validateImage_cascade after_size_check_cascade after_dimension_check_def
        split: sum.splits)
  show "prefix ''image/'' (ftype file) \<and> \<not> of_nat MAX_IMAGE_MB < size_in_MB file
        \<and> decoded env file = Inl e \<longrightarrow>
      validateImage env file
        = Inr \<lparr>ok = False, reason = Some ''Could not read the image. Try another file.'',
               details = None\<rparr>"
    by (simp add: validateImage_cascade after_size_check_cascade)
  show "prefix ''image/'' (ftype file) \<and> \<not> of_nat MAX_IMAGE_MB < size_in_MB file
        \<and> decoded env file = Inr img \<and> MIN_DIM \<le> width img \<and> MIN_DIM \<le> height img
        \<and> computeVegetationScore env img = Inl e' \<longrightarrow>
      validateImage env file
        = Inr \<lparr>ok = False, reason = Some ''Could not read the image. Try another file.'',
               details = None\<rparr>"
    by (simp add: validateImage_cascade after_size_check_cascade after_dimension_check_def not_less)
qed

theorem no_exception_escapes_witness:
  "prefix ''image/'' (ftype leaf_png) \<and> \<not> of_nat MAX_IMAGE_MB < size_in_MB leaf_png
   \<and> decoded decodes_nothing leaf_png = Inl (ErrorEvent ''error'')
   \<and> validateImage decodes_nothing leaf_png
     = Inr \<lparr>ok = False, reason = Some ''Could not read the image. Try another file.'',
            details = None\<rparr>
   \<and> decoded (browser_tainting green_image) leaf_png = Inr green_image
   \<and> MIN_DIM \<le> width green_image \<and> MIN_DIM \<le> height green_image
   \<and> computeVegetationScore (browser_tainting green_image) green_image
       = Inl (DOMException ''SecurityError'')
   \<and> validateImage (browser_tainting green_image) leaf_png
     = Inr \<lparr>ok = False, reason = Some ''Could not read the image. Try another file.'',
            details = None\<rparr>"
proof -
  have d: "decoded decodes_nothing leaf_png = Inl (ErrorEvent ''error'')"
    by (simp add: decoded_def loadImageFromBlob_def decodes_nothing_def)
  have d': "decoded (browser_tainting green_image) leaf_png = Inr green_image"
    by (simp add: decoded_def loadImageFromBlob_def browser_tainting_def)
  have dims: "MIN_DIM \<le> width green_image" "MIN_DIM \<le> height green_image"
    by (simp_all add: green_image_def MIN_DIM_def)
  have raised: "computeVegetationScore (browser_tainting green_image) green_image
      = Inl (DOMException ''SecurityError'')"
    by (simp add: computeVegetationScore_spec browser_tainting_def split: prod.splits)
  show ?thesis
    using no_exception_escapes [of decodes_nothing leaf_png "ErrorEvent ''error''"]
      no_exception_escapes [of "browser_tainting green_image" leaf_png _ green_image
        "DOMException ''SecurityError''"]
      leaf_png_facts d d' dims raised
    by simp
qed

text \<open>
  Claim C7.  A decodable image of acceptable type and size whose width or height is below
  \<open>MIN_DIM\<close> is rejected with the reason \<open>Image is too small (WxH). Minimum 256x256.\<close>,
  \<open>W\<close> and \<open>H\<close> being its width and height.
\<close>

theorem too_small_rejected:
  assumes "prefix ''image/'' (ftype file)" and "\<not> of_nat MAX_IMAGE_MB < size_in_MB file"
    and "decoded env file = Inr img"
    and "width img < MIN_DIM \<or> height img < MIN_DIM"
  shows "validateImage env file
    = Inr \<lparr>ok = False,
           reason = Some (''Image is too small ('' @ show_nat (width img) @ ''x''
                          @ show_nat (height img) @ ''). Minimum 256x256.''),
           details = None\<rparr>"
  using assms by (simp add: validateImage_cascade after_size_check_cascade)

theorem too_small_rejected_witness:
  "prefix ''image/'' (ftype leaf_png) \<and> \<not> of_nat MAX_IMAGE_MB < size_in_MB leaf_png
   \<and> decoded (browser_showing tiny_image) leaf_png = Inr tiny_image
   \<and> (width tiny_image < MIN_DIM \<or> height tiny_image < MIN_DIM)
   \<and> validateImage (browser_showing tiny_image) leaf_png
     = Inr \<lparr>ok = False, reason = Some ''Image is too small (120x80). Minimum 256x256.'',
            details = None\<rparr>"
proof -
  note t = leaf_png_facts(1) and l = leaf_png_facts(3)
  have d: "decoded (browser_showing tiny_image) leaf_png = Inr tiny_image"
    by (rule browser_showing_facts(1))
  have w: "width tiny_image < MIN_DIM \<or> height tiny_image < MIN_DIM"
    by (simp add: tiny_image_def MIN_DIM_def)
  have "show_nat 120 = ''120''" "show_nat 80 = ''80''" by code_simp+
  then show ?thesis using t l d w too_small_rejected [OF t l d w] by (simp add: tiny_image_def)
qed

text \<open>
  Claim C10.  Both limits are strict, each on its own.  A file of an image media type
  and of exactly 10485760 bytes has a size of exactly \<open>MAX_IMAGE_MB\<close> megabytes and is not
  rejected by the size check, whatever its content decodes to: its verdict is the one of
  the later checks, whose reason is never that of the size check; one byte more is
  rejected as too large.  A decoded image of exactly \<open>MIN_DIM\<close> by \<open>MIN_DIM\<close> pixels, in a
  file of any acceptable size, is not rejected by the dimension check: its verdict is
  the one of the vegetation score, whose reason is never that of the dimension check; a
  side of one pixel less is rejected as too small.
\<close>

theorem limits_are_strict:
  "(prefix ''image/'' (ftype file) \<and> fsize file = 10 * 1024 * 1024 \<longrightarrow>
      size_in_MB file = of_nat MAX_IMAGE_MB
      \<and> validateImage env file = Inr (after_size_check env file)
      \<and> (\<forall>x. reason (after_size_check env file) \<noteq> Some (''Image is too large ('' @ x)))
   \<and> (prefix ''image/'' (ftype file) \<and> fsize file = 10 * 1024 * 1024 + 1 \<longrightarrow>
      validateImage env file
        = Inr \<lparr>ok = False, reason = Some ''Image is too large (10.0 MB). Max 10 MB.'',
               details = None\<rparr>)
   \<and> (prefix ''image/'' (ftype file) \<and> \<not> of_nat MAX_IMAGE_MB < size_in_MB file
        \<and> decoded env file = Inr img \<and> width img = MIN_DIM \<and> height img = MIN_DIM \<longrightarrow>
      validateImage env file = Inr (after_dimension_check env file img)
      \<and> (\<forall>x. reason (after_dimension_check env file img) \<noteq> Some (''Image is too small ('' @ x)))
   \<and> (prefix ''image/'' (ftype file) \<and> \<not> of_nat MAX_IMAGE_MB < size_in_MB file
        \<and> decoded env file = Inr img \<and> (width img = MIN_DIM - 1 \<or> height img = MIN_DIM - 1) \<longrightarrow>
      validateImage env file
        = Inr \<lparr>ok = False,
               reason = Some (''Image is too small ('' @ show_nat (width img) @ ''x''
                              @ show_nat (height img) @ ''). Minimum 256x256.''),
               details = None\<rparr>)"
proof (intro conjI impI)
  assume h: "prefix ''image/'' (ftype file) \<and> fsize file = 10 * 1024 * 1024"
  then show s: "size_in_MB file = of_nat MAX_IMAGE_MB"
    by (simp add: size_in_MB_exact MAX_IMAGE_MB_def)
  show "validateImage env file = Inr (after_size_check env file)"
    using h by (simp add: validateImage_cascade s)
  show "\<forall>x. reason (after_size_check env file) \<noteq> Some (''Image is too large ('' @ x)"
    using after_size_check_reason by blast
next
  assume h: "prefix ''image/'' (ftype file) \<and> fsize file = 10 * 1024 * 1024 + 1"
  then have s: "size_in_MB file = 10485761 / 1048576"
    by (simp add: size_in_MB_exact)
  have "toFixed1 (10485761 / 1048576) = ''10.0''" by code_simp
  then show "validateImage env file
        = Inr \<lparr>ok = False, reason = Some ''Image is too large (10.0 MB). Max 10 MB.'',
               details = None\<rparr>"
    using h by (simp add: validateImage_cascade s MAX_IMAGE_MB_def)
next
  assume h: "prefix ''image/'' (ftype file) \<and> \<not> of_nat MAX_IMAGE_MB < size_in_MB file
        \<and> decoded env file = Inr img \<and> width img = MIN_DIM \<and> height img = MIN_DIM"
  then show "validateImage env file = Inr (after_dimension_check env file img)"
    by (simp add: validateImage_cascade after_size_check_cascade)
  show "\<forall>x. reason (after_dimension_check env file img) \<noteq> Some (''Image is too small ('' @ x)"
    using after_dimension_check_reason(1) by blast
next
  assume h: "prefix ''image/'' (ftype file) \<and> \<not> of_nat MAX_IMAGE_MB < size_in_MB file
        \<and> decoded env file = Inr img \<and> (width img = MIN_DIM - 1 \<or> height img = MIN_DIM - 1)"
  then have "width img < MIN_DIM \<or> height img < MIN_DIM" by (auto simp: MIN_DIM_def)
  then show "validateImage env file
        = Inr \<lparr>ok = False,
               reason = Some (''Image is too small ('' @ show_nat (width img) @ ''x''
                              @ show_nat (height img) @ ''). Minimum 256x256.''),
               details = None\<rparr>"
    using h by (simp add: validateImage_cascade after_size_check_cascade)
qed

theorem limits_are_strict_witness:
  "prefix ''image/'' (ftype limit_png) \<and> fsize limit_png = 10 * 1024 * 1024
   \<and> size_in_MB limit_png = of_nat MAX_IMAGE_MB
   \<and> validateImage (browser_showing tiny_image) limit_png
       = Inr \<lparr>ok = False, reason = Some ''Image is too small (120x80). Minimum 256x256.'',
              details = None\<rparr>
   \<and> prefix ''image/'' (ftype over_limit_png) \<and> fsize over_limit_png = 10 * 1024 * 1024 + 1
   \<and> validateImage (browser_showing tiny_image) over_limit_png
       = Inr \<lparr>ok = False, reason = Some ''Image is too large (10.0 MB). Max 10 MB.'',
              details = None\<rparr>
   \<and> prefix ''image/'' (ftype leaf_png) \<and> \<not> of_nat MAX_IMAGE_MB < size_in_MB leaf_png
   \<and> decoded (browser_showing clear_image) leaf_png = Inr clear_image
   \<and> width clear_image = MIN_DIM \<and> height clear_image = MIN_DIM
   \<and> validateImage (browser_showing clear_image) leaf_png
       = Inr (after_dimension_check (browser_showing clear_image) leaf_png clear_image)"
proof -
  have t: "prefix ''image/'' (ftype limit_png)" "fsize limit_png = 10 * 1024 * 1024"
    by (simp_all add: limit_png_def)
  have t': "prefix ''image/'' (ftype over_limit_png)" "fsize over_limit_png = 10 * 1024 * 1024 + 1"
    by (simp_all add: over_limit_png_def)
  have d: "decoded (browser_showing clear_image) leaf_png = Inr clear_image"
    by (rule browser_showing_facts(1))
  have w: "width clear_image = MIN_DIM" "height clear_image = MIN_DIM"
    by (simp_all add: clear_image_def MIN_DIM_def)
  have "show_nat 120 = ''120''" "show_nat 80 = ''80''" by code_simp+
  then have small: "after_size_check (browser_showing tiny_image) limit_png
      = \<lparr>ok = False, reason = Some ''Image is too small (120x80). Minimum 256x256.'',
         details = None\<rparr>"
    by (simp add: after_size_check_cascade browser_showing_facts(1) tiny_image_def MIN_DIM_def)
  show ?thesis
    using limits_are_strict [of limit_png "browser_showing tiny_image"]
      limits_are_strict [of over_limit_png "browser_showing tiny_image"]
      limits_are_strict [of leaf_png "browser_showing clear_image" clear_image]
      t t' d w leaf_png_facts small
    by simp
qed

text \<open>
  Claim C9, as amended.  The verdict is determined by the file, by what it decodes to
  and by how the canvas behaves: two runs in which the file's object URL, whatever it
  is, decodes to the same result, in which the 2d context is equally available and the
  canvas calls raise the same exceptions, return the same verdict, reason and details
  included.
\<close>

theorem verdict_deterministic:
  assumes "decoded env1 file = decoded env2 file" and "context2d env1 = context2d env2"
    and "canvas_raises env1 = canvas_raises env2"
  shows "validateImage env1 file = validateImage env2 file"
proof -
  have "computeVegetationScore env1 img = computeVegetationScore env2 img" for img
    using assms(2,3) by (simp add: computeVegetationScore_spec)
  then have "after_dimension_check env1 file img = after_dimension_check env2 file img" for img
    by (simp add: after_dimension_check_def)
  then have "after_size_check env1 file = after_size_check env2 file"
    using assms(1) by (auto simp: after_size_check_cascade split: sum.splits)
  then show ?thesis by (simp add: validateImage_cascade)
qed

theorem verdict_deterministic_witness:
  "createObjectURL (browser_showing green_image) leaf_png = ''blob:1/leaf.png''
   \<and> createObjectURL (browser_showing_again green_image) leaf_png = ''blob:2/leaf.png''
   \<and> decoded (browser_showing green_image) leaf_png
       = decoded (browser_showing_again green_image) leaf_png
   \<and> context2d (browser_showing green_image) = context2d (browser_showing_again green_image)
   \<and> canvas_raises (browser_showing green_image)
       = canvas_raises (browser_showing_again green_image)
   \<and> validateImage (browser_showing green_image) leaf_png
       = validateImage (browser_showing_again green_image) leaf_png"
proof -
  have u: "createObjectURL (browser_showing green_image) leaf_png = ''blob:1/leaf.png''"
    "createObjectURL (browser_showing_again green_image) leaf_png = ''blob:2/leaf.png''"
    by (simp_all add: browser_showing_def browser_showing_again_def leaf_png_def)
  have d: "decoded (browser_showing green_image) leaf_png
      = decoded (browser_showing_again green_image) leaf_png"
    by (simp add: decoded_def loadImageFromBlob_def browser_showing_def browser_showing_again_def)
  have c: "context2d (browser_showing green_image) = context2d (browser_showing_again green_image)"
    by (simp add: browser_showing_def browser_showing_again_def)
  have r: "canvas_raises (browser_showing green_image)
      = canvas_raises (browser_showing_again green_image)"
    by (simp add: browser_showing_def browser_showing_again_def)
  show ?thesis using u d c r verdict_deterministic [OF d c r] by simp
qed

text \<open>
  The claim as it stands, with the decode result alone, fails: the same file decoding to
  the same image is accepted in a run whose canvas hands out a 2d context and rejected
  in a run whose canvas hands out none.
\<close>

theorem verdict_depends_on_context:
  "decoded (browser_showing green_image) leaf_png
     = decoded (browser_without_context green_image) leaf_png
   \<and> validateImage (browser_showing green_image) leaf_png
       = Inr \<lparr>ok = True, reason = None,
              details = Some \<lparr>dwidth = 5000, dheight = 5000, sizeMB = 3, dtype = ''image/png'',
                              vegetationScore = Some 1\<rparr>\<rparr>
   \<and> validateImage (browser_without_context green_image) leaf_png
       = Inr \<lparr>ok = False,
              reason = Some ''Wrong image: looks unlike a crop/leaf. Please upload a clear leaf/plant photo.'',
              details = Some \<lparr>dwidth = 5000, dheight = 5000, sizeMB = 3, dtype = ''image/png'',
                              vegetationScore = Some 0\<rparr>\<rparr>
   \<and> validateImage (browser_showing green_image) leaf_png
       \<noteq> validateImage (browser_without_context green_image) leaf_png"
proof -
  have d: "decoded (browser_without_context green_image) leaf_png = Inr green_image"
    by (simp add: decoded_def loadImageFromBlob_def browser_without_context_def)
  have none: "computeVegetationScore (browser_without_context green_image) green_image = Inr 0"
    by (simp add: computeVegetationScore_spec browser_without_context_def)
  have img: "width green_image = 5000" "height green_image = 5000" "ftype leaf_png = ''image/png''"
    by (simp_all add: green_image_def leaf_png_def)
  have a: "validateImage (browser_showing green_image) leaf_png
       = Inr \<lparr>ok = True, reason = None,
              details = Some \<lparr>dwidth = 5000, dheight = 5000, sizeMB = 3, dtype = ''image/png'',
                              vegetationScore = Some 1\<rparr>\<rparr>"
    using leaf_png_facts
    by (simp add: validateImage_cascade after_size_check_cascade after_dimension_check_def
        browser_showing_facts green_image_score img MIN_DIM_def MIN_VEG_SCORE_value)
  have b: "validateImage (browser_without_context green_image) leaf_png
       = Inr \<lparr>ok = False,
              reason = Some ''Wrong image: looks unlike a crop/leaf. Please upload a clear leaf/plant photo.'',
              details = Some \<lparr>dwidth = 5000, dheight = 5000, sizeMB = 3, dtype = ''image/png'',
                              vegetationScore = Some 0\<rparr>\<rparr>"
    using leaf_png_facts
    by (simp add: validateImage_cascade after_size_check_cascade after_dimension_check_def
        d none img MIN_DIM_def MIN_VEG_SCORE_value)
  show ?thesis using a b d by (simp add: browser_showing_facts)
qed

section \<open>The vegetation score and the order of the checks\<close>

text \<open>
  Claim C4.  A vegetation score, whenever one is computed, lies between 0 and 1, and one
  is computed whenever the canvas is read.  When none of the samples is non-transparent,
  as for a raster that is transparent everywhere, the score is 0, and an image that got
  as far as the score is then rejected with the reason of a low vegetation score, the
  threshold being above 0.
\<close>

theorem vegetation_score_range:
  "(canvas_read env img \<longrightarrow> (\<exists>s. computeVegetationScore env img = Inr s))
   \<and> (computeVegetationScore env img = Inr s \<longrightarrow>
        0 \<le> s \<and> s \<le> 1
        \<and> (filter nontransparent (spec_samples img) = [] \<longrightarrow>
             s = 0
             \<and> (prefix ''image/'' (ftype file) \<and> \<not> of_nat MAX_IMAGE_MB < size_in_MB file
                  \<and> decoded env file = Inr img
                  \<and> MIN_DIM \<le> width img \<and> MIN_DIM \<le> height img \<longrightarrow>
                validateImage env file
                  = Inr \<lparr>ok = False,
                         reason = Some ''Wrong image: looks unlike a crop/leaf. Please upload a clear leaf/plant photo.'',
                         details = Some \<lparr>dwidth = width img, dheight = height img,
                                         sizeMB = size_in_MB file, dtype = ftype file,
                                         vegetationScore = Some 0\<rparr>\<rparr>)))"
proof (intro conjI impI)
  assume "canvas_read env img"
  then show "\<exists>s. computeVegetationScore env img = Inr s"
    by (simp add: computeVegetationScore_read)
next
  assume s: "computeVegetationScore env img = Inr s"
  show "0 \<le> s" "s \<le> 1"
    using computeVegetationScore_returned [OF s] spec_score_range [of img] by auto
  assume none: "filter nontransparent (spec_samples img) = []"
  show zero: "s = 0"
    using computeVegetationScore_returned [OF s] spec_score_none [OF none] by auto
  assume "prefix ''image/'' (ftype file) \<and> \<not> of_nat MAX_IMAGE_MB < size_in_MB file
      \<and> decoded env file = Inr img \<and> MIN_DIM \<le> width img \<and> MIN_DIM \<le> height img"
  then show "validateImage env file
      = Inr \<lparr>ok = False,
             reason = Some ''Wrong image: looks unlike a crop/leaf. Please upload a clear leaf/plant photo.'',
             details = Some \<lparr>dwidth = width img, dheight = height img,
                             sizeMB = size_in_MB file, dtype = ftype file,
                             vegetationScore = Some 0\<rparr>\<rparr>"
    using s zero MIN_VEG_SCORE_pos
    by (simp add: validateImage_cascade after_size_check_cascade after_dimension_check_def not_less)
qed

theorem vegetation_score_range_witness:
  "canvas_read (browser_showing clear_image) clear_image
   \<and> computeVegetationScore (browser_showing clear_image) clear_image = Inr 0
   \<and> filter nontransparent (spec_samples clear_image) = []
   \<and> prefix ''image/'' (ftype leaf_png) \<and> \<not> of_nat MAX_IMAGE_MB < size_in_MB leaf_png
   \<and> decoded (browser_showing clear_image) leaf_png = Inr clear_image
   \<and> MIN_DIM \<le> width clear_image \<and> MIN_DIM \<le> height clear_image
   \<and> validateImage (browser_showing clear_image) leaf_png
       = Inr \<lparr>ok = False,
              reason = Some ''Wrong image: looks unlike a crop/leaf. Please upload a clear leaf/plant photo.'',
              details = Some \<lparr>dwidth = 256, dheight = 256, sizeMB = 3, dtype = ''image/png'',
                              vegetationScore = Some 0\<rparr>\<rparr>"
proof -
  have clear: "filter nontransparent (spec_samples clear_image) = []"
    by (auto simp: filter_empty_conv spec_samples_def clear_image_def nontransparent_def
        split: prod.splits)
  have read: "canvas_read (browser_showing clear_image) clear_image"
    by (rule browser_showing_facts(3))
  have score: "computeVegetationScore (browser_showing clear_image) clear_image = Inr 0"
    using read spec_score_none [OF clear] by (simp add: computeVegetationScore_read)
  have dims: "MIN_DIM \<le> width clear_image" "MIN_DIM \<le> height clear_image"
    by (simp_all add: clear_image_def MIN_DIM_def)
  have more: "width clear_image = 256" "height clear_image = 256" "ftype leaf_png = ''image/png''"
    by (simp_all add: clear_image_def leaf_png_def)
  show ?thesis
    using vegetation_score_range [of "browser_showing clear_image" clear_image 0 leaf_png]
      clear read score dims leaf_png_facts browser_showing_facts(1) [of clear_image leaf_png]
    by (simp add: more)
qed

text \<open>
  Claim C3.  A 5000 by 5000 PNG of 3 MB that is green everywhere, (0, 200, 0, 255), is
  accepted, with the details width 5000, height 5000, sizeMB 3, type \<open>image/png\<close> and
  vegetationScore 1.  Every accepted verdict carries the details of the decoded image:
  its width and height, the size in megabytes and the media type of the file, and the
  vegetation score.
\<close>

theorem accepted_details:
  "validateImage (browser_showing green_image) leaf_png
     = Inr \<lparr>ok = True, reason = None,
            details = Some \<lparr>dwidth = 5000, dheight = 5000, sizeMB = 3, dtype = ''image/png'',
                            vegetationScore = Some 1\<rparr>\<rparr>
   \<and> (\<forall>env file v. validateImage env file = Inr v \<and> ok v \<longrightarrow>
         (\<exists>img score. decoded env file = Inr img
            \<and> computeVegetationScore env img = Inr score
            \<and> details v
                = Some \<lparr>dwidth = width img, dheight = height img, sizeMB = size_in_MB file,
                        dtype = ftype file, vegetationScore = Some score\<rparr>))"
proof
  have img: "width green_image = 5000" "height green_image = 5000" "ftype leaf_png = ''image/png''"
    by (simp_all add: green_image_def leaf_png_def)
  show "validateImage (browser_showing green_image) leaf_png
     = Inr \<lparr>ok = True, reason = None,
            details = Some \<lparr>dwidth = 5000, dheight = 5000, sizeMB = 3, dtype = ''image/png'',
                            vegetationScore = Some 1\<rparr>\<rparr>"
    using leaf_png_facts
    by (simp add: validateImage_cascade after_size_check_cascade after_dimension_check_def
        browser_showing_facts green_image_score img MIN_DIM_def MIN_VEG_SCORE_value)
  show "\<forall>env file v. validateImage env file = Inr v \<and> ok v \<longrightarrow>
         (\<exists>img score. decoded env file = Inr img
            \<and> computeVegetationScore env img = Inr score
            \<and> details v
                = Some \<lparr>dwidth = width img, dheight = height img, sizeMB = size_in_MB file,
                        dtype = ftype file, vegetationScore = Some score\<rparr>)"
    by (auto simp: validateImage_cascade after_size_check_cascade after_dimension_check_def
        split: sum.splits if_splits)
qed

theorem accepted_details_witness:
  "validateImage (browser_showing green_image) leaf_png
     = Inr \<lparr>ok = True, reason = None,
            details = Some \<lparr>dwidth = width green_image, dheight = height green_image,
                            sizeMB = size_in_MB leaf_png, dtype = ftype leaf_png,
                            vegetationScore = Some 1\<rparr>\<rparr>
   \<and> decoded (browser_showing green_image) leaf_png = Inr green_image
   \<and> computeVegetationScore (browser_showing green_image) green_image = Inr 1"
proof -
  let ?v = "\<lparr>ok = True, reason = None,
            details = Some \<lparr>dwidth = 5000, dheight = 5000, sizeMB = 3, dtype = ''image/png'',
                            vegetationScore = Some 1\<rparr>\<rparr>"
  have run: "validateImage (browser_showing green_image) leaf_png = Inr ?v"
    using accepted_details by simp
  moreover have "ok ?v" by simp
  ultimately obtain img score where load: "decoded (browser_showing green_image) leaf_png = Inr img"
    and sc: "computeVegetationScore (browser_showing green_image) img = Inr score"
    and d: "details ?v
       = Some \<lparr>dwidth = width img, dheight = height img,
               sizeMB = size_in_MB leaf_png, dtype = ftype leaf_png,
               vegetationScore = Some score\<rparr>"
    using accepted_details by blast
  from load have i: "img = green_image" by (simp add: browser_showing_facts)
  from d have "score = 1" by simp
  then show ?thesis using run load sc d i by simp
qed

text \<open>
  Claim C2.  When the canvas is read, the vegetation score is the score of the
  specification.  Each side of the canvas is the whole part of the image's side times
  the scale factor \<open>min(1, 512 / longer side)\<close>, the product taken within \<open>2^-42\<close>, at
  least 1; so both sides are between 1 and 512 and an image with no side above 512
  keeps its size.  The samples are the pixels at the multiples of the stride
  \<open>max(1, pixels div 10000)\<close>; samples with alpha below 50 are skipped; a sample is green
  when green exceeds red times 1.1 and blue times 1.1, exactly, and exceeds 60; and the
  score is the number nearest to the quotient of the green count by the count of
  non-transparent samples, within \<open>2^-53\<close> of it.
\<close>

theorem vegetation_score_as_specified:
  assumes "canvas_read env img"
  shows "computeVegetationScore env img = Inr (spec_score img)
    \<and> (case canvas_size img of (cw, ch) \<Rightarrow>
          scaled_side (of_nat (width img) * spec_scale img) cw
          \<and> scaled_side (of_nat (height img) * spec_scale img) ch
          \<and> 1 \<le> cw \<and> cw \<le> 512 \<and> 1 \<le> ch \<and> ch \<le> 512)
    \<and> (0 < width img \<and> 0 < height img \<and> width img \<le> 512 \<and> height img \<le> 512 \<longrightarrow>
         canvas_size img = (width img, height img))
    \<and> (filter nontransparent (spec_samples img) \<noteq> [] \<longrightarrow>
         \<bar>spec_score img
            - of_nat (length (filter green_dominant (filter nontransparent (spec_samples img))))
              / of_nat (length (filter nontransparent (spec_samples img)))\<bar> \<le> 1 / 2 ^ 53)"
proof -
  let ?counted = "filter nontransparent (spec_samples img)"
  let ?green = "filter green_dominant ?counted"
  let ?ratio = "(of_nat (length ?green) :: rat) / of_nat (length ?counted)"
  have score: "computeVegetationScore env img = Inr (spec_score img)"
    using assms by (rule computeVegetationScore_read)
  have size: "case canvas_size img of (cw, ch) \<Rightarrow>
          scaled_side (of_nat (width img) * spec_scale img) cw
          \<and> scaled_side (of_nat (height img) * spec_scale img) ch
          \<and> 1 \<le> cw \<and> cw \<le> 512 \<and> 1 \<le> ch \<and> ch \<le> 512"
    using canvas_size_bounds [of img] canvas_size_scaled [of img]
    by (cases "canvas_size img") simp
  have same: "canvas_size img = (width img, height img)"
    if "0 < width img \<and> 0 < height img \<and> width img \<le> 512 \<and> height img \<le> 512"
    using that by (intro canvas_size_unscaled) simp_all
  have near: "\<bar>spec_score img - ?ratio\<bar> \<le> 1 / 2 ^ 53" if "?counted \<noteq> []"
  proof -
    have "length ?green \<le> length ?counted" by (rule length_filter_le)
    then have "(of_nat (length ?green) :: rat) \<le> of_nat (length ?counted)"
      by (simp only: of_nat_le_iff)
    then have le1: "?ratio \<le> 1" by (simp add: divide_le_eq_1)
    have ge0: "0 \<le> ?ratio" by simp
    have "\<bar>fl ?ratio - ?ratio\<bar> \<le> \<bar>?ratio\<bar> / 2 ^ 53" by (rule fl_err)
    also have "\<dots> \<le> 1 / 2 ^ 53" using le1 ge0 by (simp add: divide_right_mono)
    finally show ?thesis using that by (simp add: spec_score_def Let_def)
  qed
  show ?thesis using score size same near by blast
qed

theorem vegetation_score_as_specified_witness:
  "canvas_read (browser_showing striped_image) striped_image
   \<and> canvas_size striped_image = (512, 40)
   \<and> spec_stride (512 * 40) = 2
   \<and> computeVegetationScore (browser_showing striped_image) striped_image = Inr 1
   \<and> canvas_size square_561 = (511, 511)
   \<and> canvas_read (browser_showing two_pixels) two_pixels
   \<and> computeVegetationScore (browser_showing two_pixels) two_pixels = Inr (1 / 2)
   \<and> spec_score two_pixels = 1 / 2"
proof -
  have read: "canvas_read (browser_showing striped_image) striped_image"
    "canvas_read (browser_showing two_pixels) two_pixels"
    by (rule browser_showing_facts(3))+
  note size = canvas_size_striped
  have stride: "spec_stride (512 * 40) = 2" by (simp add: spec_stride_def)
  have samples: "spec_samples striped_image
      = map (resample striped_image 512 40) (filter (\<lambda>p. p mod 2 = 0) [0..<512 * 40])"
    by (simp only: spec_samples_def size prod.case stride)
  have "\<forall>px \<in> set (map (resample striped_image 512 40) (filter (\<lambda>p. p mod 2 = 0) xs)).
      px = (0, 200, 0, 255)" for xs
    by (auto simp: striped_image_def)
  then have "\<forall>px \<in> set (spec_samples striped_image). px = (0, 200, 0, 255)"
    by (simp only: samples)
  then have "spec_score striped_image = 1"
    using green_pixel by (intro spec_score_all_green) auto
  then have striped: "computeVegetationScore (browser_showing striped_image) striped_image = Inr 1"
    using vegetation_score_as_specified [OF read(1)] by simp
  note square = canvas_size_square_561
  have run: "computeVegetationScore (browser_showing two_pixels) two_pixels = Inr (1 / 2)"
    by code_simp
  then have "spec_score two_pixels = 1 / 2"
    using vegetation_score_as_specified [OF read(2)] by simp
  then show ?thesis using read size stride striped square run by simp
qed

text \<open>
  Claim C1, as amended.  \<open>validateImage\<close> applies the five checks in the order media
  type, size, decoding, dimensions, vegetation score and stops at the first that fails:
  the verdict is accepted exactly when no check fails, and otherwise its reason is the
  reason of the first failing check, never that of a later one; except that, when the
  first four checks pass and the canvas calls raise, so that no score is computed, the
  reason is the one of a failed decoding, \<open>Could not read the image. Try another file.\<close>
\<close>

theorem checks_in_order:
  "\<exists>v. validateImage env file = Inr v
     \<and> ok v = (first_failure env file = None)
     \<and> reason v =
         (if score_raised env file \<and> first_failure env file = Some LowVegetationScore
          then Some ''Could not read the image. Try another file.''
          else map_option (spec_reason env file) (first_failure env file))"
proof (cases "decoded env file")
  case (Inl e)
  then show ?thesis
    by (simp add: validateImage_cascade after_size_check_cascade first_failure_def
        check_passes_def spec_reason_def score_raised_def not_less)
next
  case (Inr img)
  show ?thesis
  proof (cases "computeVegetationScore env img")
    case (Inl e)
    then show ?thesis
      using Inr
      by (simp add: validateImage_cascade after_size_check_cascade after_dimension_check_def
          first_failure_def check_passes_def spec_reason_def score_raised_def
          not_less not_le)
  next
    case score: (Inr s)
    then show ?thesis
      using Inr threshold_exact [OF score]
      by (simp add: validateImage_cascade after_size_check_cascade after_dimension_check_def
          first_failure_def check_passes_def spec_reason_def score_raised_def
          not_less not_le)
  qed
qed

theorem checks_in_order_witness:
  "first_failure (browser_showing tiny_image) leaf_png = Some TooSmall
   \<and> validateImage (browser_showing tiny_image) leaf_png
       = Inr \<lparr>ok = False, reason = Some ''Image is too small (120x80). Minimum 256x256.'',
              details = None\<rparr>"
proof -
  have "show_nat 120 = ''120''" "show_nat 80 = ''80''" by code_simp+
  moreover have f: "first_failure (browser_showing tiny_image) leaf_png = Some TooSmall"
    using leaf_png_facts
    by (simp add: first_failure_def check_passes_def browser_showing_facts MAX_IMAGE_MB_def
        tiny_image_def MIN_DIM_def)
  moreover have "validateImage (browser_showing tiny_image) leaf_png
      = Inr (after_size_check (browser_showing tiny_image) leaf_png)"
    using leaf_png_facts by (simp add: validateImage_cascade)
  moreover have "details (after_size_check (browser_showing tiny_image) leaf_png) = None"
    by (simp add: after_size_check_cascade browser_showing_facts tiny_image_def MIN_DIM_def)
  ultimately show ?thesis
    using checks_in_order [of "browser_showing tiny_image" leaf_png]
    by (auto simp: spec_reason_def browser_showing_facts tiny_image_def)
qed

text \<open>
  The claim as it stands fails where the canvas calls raise: the file below decodes, to
  an image of 5000 by 5000 pixels, so that the first check to fail is the one of the
  vegetation score, whose reason is \<open>Wrong image: ...\<close>; the verdict carries the reason
  of the decoding check instead.
\<close>

theorem decoded_image_reported_unreadable:
  "decoded (browser_tainting green_image) leaf_png = Inr green_image
   \<and> first_failure (browser_tainting green_image) leaf_png = Some LowVegetationScore
   \<and> spec_reason (browser_tainting green_image) leaf_png LowVegetationScore
       = ''Wrong image: looks unlike a crop/leaf. Please upload a clear leaf/plant photo.''
   \<and> validateImage (browser_tainting green_image) leaf_png
       = Inr \<lparr>ok = False, reason = Some ''Could not read the image. Try another file.'',
              details = None\<rparr>"
proof -
  have d: "decoded (browser_tainting green_image) leaf_png = Inr green_image"
    by (simp add: decoded_def loadImageFromBlob_def browser_tainting_def)
  have raised: "computeVegetationScore (browser_tainting green_image) green_image
      = Inl (DOMException ''SecurityError'')"
    by (simp add: computeVegetationScore_spec browser_tainting_def split: prod.splits)
  have dims: "width green_image = 5000" "height green_image = 5000"
    by (simp_all add: green_image_def)
  have f: "first_failure (browser_tainting green_image) leaf_png = Some LowVegetationScore"
    using leaf_png_facts
    by (simp add: first_failure_def check_passes_def d raised dims MAX_IMAGE_MB_def MIN_DIM_def)
  have v: "validateImage (browser_tainting green_image) leaf_png
       = Inr \<lparr>ok = False, reason = Some ''Could not read the image. Try another file.'',
              details = None\<rparr>"
    using leaf_png_facts
    by (simp add: validateImage_cascade after_size_check_cascade after_dimension_check_def
        d raised dims MIN_DIM_def)
  show ?thesis using d f v by (simp add: spec_reason_def)
qed

end
